theory Spec2Isabelle
  imports Main "HOL-Library.AList" "HOL-Library.Multiset"
begin

section \<open>JavaScript values, objects and effects\<close>

text \<open>
  The module \<^verbatim>\<open>src/node/services/files.js\<close> works on dynamically typed values. The
  embedding keeps the part of the value space the module touches: primitives, plain
  objects (ordered own properties), arrays, functions (a method is represented by the
  value its call returns) and thrown errors.
\<close>

datatype js_error = FsError string | SyntaxError string | TypeError string

datatype jsval =
    Undefined
  | Null
  | Bool bool
  | Num int
  | Str string
  | Method jsval
  | Object "(string \<times> jsval) list"
  | Array "jsval list"
  | Exn js_error

type_synonym js_object = "(string \<times> jsval) list"

text \<open>Property read \<^verbatim>\<open>o[k]\<close>: a missing property reads as \<^verbatim>\<open>undefined\<close>.\<close>

definition get_prop :: "js_object \<Rightarrow> string \<Rightarrow> jsval" where
  "get_prop obj k = (case map_of obj k of None \<Rightarrow> Undefined | Some v \<Rightarrow> v)"

text \<open>Property write \<^verbatim>\<open>o[k] = v\<close>: an existing key keeps its place, a new key goes last.\<close>

definition set_prop :: "string \<Rightarrow> jsval \<Rightarrow> js_object \<Rightarrow> js_object" where
  "set_prop k v obj = AList.update k v obj"

text \<open>\<^verbatim>\<open>_.assign(target, source)\<close>: copy the own properties of the source, in order.\<close>

fun assign :: "js_object \<Rightarrow> js_object \<Rightarrow> js_object" where
  "assign target [] = target"
| "assign target ((k, v) # src) = assign (set_prop k v target) src"

text \<open>
  \<^verbatim>\<open>_.result(object, key, defaultValue)\<close> of lodash: the default when the property is
  \<^verbatim>\<open>undefined\<close>, the result of the call when the property is a function, the property's
  value otherwise.
\<close>

definition result :: "js_object \<Rightarrow> string \<Rightarrow> jsval \<Rightarrow> jsval" where
  "result obj k d = (case get_prop obj k of Undefined \<Rightarrow> d | Method r \<Rightarrow> r | v \<Rightarrow> v)"

text \<open>
  Everything the module does besides returning a value is recorded, in order, in a trace
  of effects: calls of \<^verbatim>\<open>log(level, ...args)\<close>, file-system calls, and the calls made on
  chokidar watchers (identified by a handle).
\<close>

datatype effect =
    Log string "jsval list"
  | Syscall string string
  | Watch nat
  | Close nat
  | Add nat jsval

definition warnings :: "effect list \<Rightarrow> effect list" where
  "warnings effs = filter (\<lambda>e. case e of Log lvl _ \<Rightarrow> lvl = ''warn'' | _ \<Rightarrow> False) effs"

section \<open>The platform: Node's libraries\<close>

text \<open>
  \<^verbatim>\<open>os.homedir\<close>, \<^verbatim>\<open>path.join\<close>, \<^verbatim>\<open>path.posix.parse\<close>, the \<^verbatim>\<open>fs\<close> calls and \<^verbatim>\<open>JSON.parse\<close>
  are not code of this repository: they are parameters of the embedding. The file
  system is read as it stands during one call of the module. \<^verbatim>\<open>fs.lstat\<close> and \<^verbatim>\<open>fs.stat\<close>
  yield \<^verbatim>\<open>fs.Stats\<close> objects, whose three predicates are methods returning booleans.
\<close>

record parsed_path =
  root :: string
  dir :: string
  base :: string
  ext :: string
  name :: string

record fs_Stats =
  st_isDirectory :: bool
  st_isFile :: bool
  st_isSymbolicLink :: bool
  st_size :: int
  st_mtime :: int

record platform =
  os_homedir :: string
  path_join :: "string \<Rightarrow> string \<Rightarrow> string"
  path_posix_parse :: "string \<Rightarrow> parsed_path"
  fs_readdir :: "string \<Rightarrow> js_error + string list"
  fs_lstat :: "string \<Rightarrow> js_error + fs_Stats"
  fs_stat :: "string \<Rightarrow> js_error + fs_Stats"
  fs_readFileSync :: "string \<Rightarrow> js_error + string"
  JSON_parse :: "string \<Rightarrow> js_error + jsval"

text \<open>An \<^verbatim>\<open>fs.Stats\<close> object as the module sees it, and the object \<^verbatim>\<open>path.posix.parse\<close> returns.\<close>

definition stats_object :: "fs_Stats \<Rightarrow> js_object" where
  "stats_object s =
     [(''size'', Num (st_size s)), (''mtime'', Num (st_mtime s)),
      (''isDirectory'', Method (Bool (st_isDirectory s))),
      (''isFile'', Method (Bool (st_isFile s))),
      (''isSymbolicLink'', Method (Bool (st_isSymbolicLink s)))]"

definition parsed_object :: "parsed_path \<Rightarrow> js_object" where
  "parsed_object p =
     [(''root'', Str (root p)), (''dir'', Str (dir p)), (''base'', Str (base p)),
      (''ext'', Str (ext p)), (''name'', Str (name p))]"

subsection \<open>Node's POSIX \<^verbatim>\<open>path.join\<close> and \<^verbatim>\<open>path.posix.parse\<close>\<close>

text \<open>
  A model of the library functions on a POSIX host, used where a concrete platform is
  needed. \<^verbatim>\<open>path.join\<close> concatenates its non-empty arguments with a slash and normalises
  the outcome: empty and \<^verbatim>\<open>.\<close> segments disappear, \<^verbatim>\<open>..\<close> removes the segment before it.
\<close>

fun split_on :: "char \<Rightarrow> string \<Rightarrow> string list" where
  "split_on c [] = [[]]"
| "split_on c (x # xs) =
     (if x = c then [] # split_on c xs
      else (case split_on c xs of [] \<Rightarrow> [[x]] | seg # segs \<Rightarrow> (x # seg) # segs))"

fun join_with :: "char \<Rightarrow> string list \<Rightarrow> string" where
  "join_with c [] = []"
| "join_with c [seg] = seg"
| "join_with c (seg # segs) = seg @ c # join_with c segs"

fun normalizeArray :: "bool \<Rightarrow> string list \<Rightarrow> string list \<Rightarrow> string list" where
  "normalizeArray allowAboveRoot res [] = res"
| "normalizeArray allowAboveRoot res (p # parts) =
     (if p = [] \<or> p = ''.'' then normalizeArray allowAboveRoot res parts
      else if p = ''..'' then
        (if res \<noteq> [] \<and> last res \<noteq> ''..'' then normalizeArray allowAboveRoot (butlast res) parts
         else if allowAboveRoot then normalizeArray allowAboveRoot (res @ [p]) parts
         else normalizeArray allowAboveRoot res parts)
      else normalizeArray allowAboveRoot (res @ [p]) parts)"

definition posix_normalize :: "string \<Rightarrow> string" where
  "posix_normalize p =
     (let isAbsolute = (p \<noteq> [] \<and> hd p = CHR ''/'');
          trailingSlash = (p \<noteq> [] \<and> last p = CHR ''/'');
          q = join_with CHR ''/'' (normalizeArray (\<not> isAbsolute) [] (split_on CHR ''/'' p));
          q1 = (if q = [] \<and> \<not> isAbsolute then ''.'' else q);
          q2 = (if q1 \<noteq> [] \<and> trailingSlash then q1 @ ''/'' else q1)
      in (if isAbsolute then ''/'' else []) @ q2)"

definition posix_join :: "string \<Rightarrow> string \<Rightarrow> string" where
  "posix_join a b =
     posix_normalize (if a = [] then b else if b = [] then a else a @ ''/'' @ b)"

definition posix_parse :: "string \<Rightarrow> parsed_path" where
  "posix_parse p =
     (let isAbsolute = (p \<noteq> [] \<and> hd p = CHR ''/'');
          trimmed = rev (dropWhile (\<lambda>c. c = CHR ''/'') (rev p));
          b = rev (takeWhile (\<lambda>c. c \<noteq> CHR ''/'') (rev trimmed));
          front = take (length trimmed - length b - 1) trimmed;
          d = (if front = [] \<and> isAbsolute then ''/'' else front);
          e = rev (takeWhile (\<lambda>c. c \<noteq> CHR ''.'') (rev b));
          hasExt = (length e < length b \<and> length e + 1 < length b \<and> b \<noteq> ''..'');
          x = (if hasExt then CHR ''.'' # e else [])
      in \<lparr>root = (if isAbsolute then ''/'' else []), dir = d, base = b, ext = x,
          name = take (length b - length x) b\<rparr>)"

section \<open>PathResolver\<close>

text \<open>\<^verbatim>\<open>_.startsWith(str, target)\<close> and \<^verbatim>\<open>str.substr(n)\<close> on strings.\<close>

definition startsWith :: "string \<Rightarrow> string \<Rightarrow> bool" where
  "startsWith str target = (take (length target) str = target)"

definition substr :: "string \<Rightarrow> nat \<Rightarrow> string" where
  "substr str n = drop n str"

text \<open>
  \<^verbatim>\<open>str.replace(/^token/, replacement)\<close> with a string replacement: JavaScript expands
  the dollar patterns of the replacement (\<^verbatim>\<open>$$\<close>, \<^verbatim>\<open>$&\<close>, the text before and the text after
  the match); the regular expressions of the module have no capture group, so \<^verbatim>\<open>$1\<close> stays
  as it is. The match is anchored at the start, so the text before it is empty.
\<close>

fun getSubstitution :: "string \<Rightarrow> string \<Rightarrow> string \<Rightarrow> string" where
  "getSubstitution matched after [] = []"
| "getSubstitution matched after [c] = [c]"
| "getSubstitution matched after (c # d # cs) =
     (if c = CHR ''$'' then
        (if d = CHR ''$'' then CHR ''$'' # getSubstitution matched after cs
         else if d = CHR ''&'' then matched @ getSubstitution matched after cs
         else if d = CHR 0x60 then getSubstitution matched after cs
         else if d = CHR 0x27 then after @ getSubstitution matched after cs
         else c # getSubstitution matched after (d # cs))
      else c # getSubstitution matched after (d # cs))"

definition replace_prefix :: "string \<Rightarrow> string \<Rightarrow> string \<Rightarrow> string" where
  "replace_prefix token replacement str =
     (if startsWith str token
      then getSubstitution token (substr str (length token)) replacement
           @ substr str (length token)
      else str)"

text \<open>
  \<^verbatim>\<open>
  function resolveHomeDirectory(str) {
    if (_.startsWith(str, '~') || _.startsWith(str, '%HOME%')) {
      const home = require('os').homedir();
      str = str.replace(/^~/, home).replace(/^%HOME%/, home);
    }
    return str;
  }
  \<close>
\<close>

definition resolveHomeDirectory :: "platform \<Rightarrow> string \<Rightarrow> string" where
  "resolveHomeDirectory P str =
     (if startsWith str ''~'' \<or> startsWith str ''%HOME%''
      then (let home = os_homedir P
            in replace_prefix ''%HOME%'' home (replace_prefix ''~'' home str))
      else str)"

text \<open>
  \<^verbatim>\<open>
  function getWithHomeDirectoryShortName(str) {
    const home = require('os').homedir();
    if (_.startsWith(str, home)) {
      str = path.join('~', str.substr(home.length));
    }
    return str;
  }
  \<close>
\<close>

definition getWithHomeDirectoryShortName :: "platform \<Rightarrow> string \<Rightarrow> string" where
  "getWithHomeDirectoryShortName P str =
     (let home = os_homedir P
      in if startsWith str home then path_join P ''~'' (substr str (length home)) else str)"

section \<open>StatSnapshotter\<close>

text \<open>
  \<^verbatim>\<open>
  function normalizeStats(stats) {
    if (stats) {
      stats.isDirectory = _.result(stats, 'isDirectory', false);
      stats.isFile = _.result(stats, 'isFile', false);
      stats.isSymbolicLink = _.result(stats, 'isSymbolicLink', false);
    }
    return stats;
  }
  \<close>
  \<open>normalizeObject\<close> is the body of the conditional; an absent value (\<^verbatim>\<open>undefined\<close>,
  \<^verbatim>\<open>null\<close>) is \<open>None\<close> and is returned as it is.
\<close>

definition normalizeObject :: "js_object \<Rightarrow> js_object" where
  "normalizeObject stats =
     (let s1 = set_prop ''isDirectory'' (result stats ''isDirectory'' (Bool False)) stats;
          s2 = set_prop ''isFile'' (result s1 ''isFile'' (Bool False)) s1
      in set_prop ''isSymbolicLink'' (result s2 ''isSymbolicLink'' (Bool False)) s2)"

definition normalizeStats :: "js_object option \<Rightarrow> js_object option" where
  "normalizeStats stats = (case stats of None \<Rightarrow> None | Some s \<Rightarrow> Some (normalizeObject s))"

text \<open>
  \<^verbatim>\<open>
  function getStats(filename) {
    filename = resolveHomeDirectory(filename);
    const lstat = bluebird.promisify(fs.lstat);
    return lstat(filename)
      .catch(function (lstatEx) {
        log('warn', 'lstat failed', filename, lstatEx);
        const stat = bluebird.promisify(fs.stat);
        return stat(filename);
      })
      .then(normalizeStats);
  }
  \<close>
  The promise is modelled by its outcome: \<open>Inl\<close> a rejection, \<open>Inr\<close> the value it
  resolves with. The trace of effects is threaded through.
\<close>

definition getStats ::
  "platform \<Rightarrow> string \<Rightarrow> effect list \<Rightarrow> (js_error + js_object option) \<times> effect list" where
  "getStats P filename effs =
     (let filename' = resolveHomeDirectory P filename;
          effs1 = effs @ [Syscall ''lstat'' filename']
      in case fs_lstat P filename' of
           Inr s \<Rightarrow> (Inr (normalizeStats (Some (stats_object s))), effs1)
         | Inl lstatEx \<Rightarrow>
             (let effs2 = effs1 @ [Log ''warn'' [Str ''lstat failed'', Str filename', Exn lstatEx],
                                   Syscall ''stat'' filename']
              in case fs_stat P filename' of
                   Inr s \<Rightarrow> (Inr (normalizeStats (Some (stats_object s))), effs2)
                 | Inl statEx \<Rightarrow> (Inl statEx, effs2)))"

section \<open>DirectoryListingService\<close>





section \<open>Structured configuration\<close>

text \<open>
  \<^verbatim>\<open>
  function getJSONFileSafeSync(filePath) {
    let contents, result = null;
    try {
      contents = fs.readFileSync(filePath, {encoding: 'UTF8'});
      try {
        result = JSON.parse(contents);
      } catch (e) {
        log('warn', filePath, 'is not valid JSON', e);
      }
    } catch (ex) {
      // deliberately no warning, thus "safe".
    }
    return result;
  }
  \<close>
\<close>

definition getJSONFileSafeSync :: "platform \<Rightarrow> string \<Rightarrow> effect list \<Rightarrow> jsval \<times> effect list" where
  "getJSONFileSafeSync P filePath effs =
     (let effs1 = effs @ [Syscall ''readFileSync'' filePath]
      in case fs_readFileSync P filePath of
           Inl ex \<Rightarrow> (Null, effs1)
         | Inr contents \<Rightarrow>
             (case JSON_parse P contents of
                Inl e \<Rightarrow> (Null, effs1 @ [Log ''warn'' [Str filePath, Str ''is not valid JSON'', Exn e]])
              | Inr v \<Rightarrow> (v, effs1)))"

section \<open>ChangeEventTranslator\<close>

text \<open>
  \<^verbatim>\<open>
  function getFileSystemChangeToken(eventType, filePath, details) {
    details = normalizeStats(details);
    const event = {type: 'FILE_SYSTEM_CHANGED', eventType, path: filePath};
    // duck-typing: if details exists and has a property with this name
    if (details && details.isDirectory !== undefined) {
      details = normalizeStats(details);
      details.path = filePath;
      _.assign(details, path.posix.parse(filePath));
      event.details = details;
    } else {
      log('info', 'HEEEEEY', eventType, filePath, details);
    }
    return event;
  }
  \<close>
  The raw detail is what chokidar passes: an object or nothing (\<open>None\<close>).
\<close>

definition getFileSystemChangeToken ::
  "platform \<Rightarrow> string \<Rightarrow> string \<Rightarrow> js_object option \<Rightarrow> effect list \<Rightarrow> js_object \<times> effect list" where
  "getFileSystemChangeToken P eventType filePath details effs =
     (let details1 = normalizeStats details;
          event = [(''type'', Str ''FILE_SYSTEM_CHANGED''), (''eventType'', Str eventType),
                   (''path'', Str filePath)]
      in case details1 of
           None \<Rightarrow>
             (event, effs @ [Log ''info'' [Str ''HEEEEEY'', Str eventType, Str filePath, Undefined]])
         | Some d \<Rightarrow>
             (if get_prop d ''isDirectory'' \<noteq> Undefined
              then (let d2 = normalizeObject d;
                        d3 = set_prop ''path'' (Str filePath) d2;
                        d4 = assign d3 (parsed_object (path_posix_parse P filePath))
                    in (set_prop ''details'' (Object d4) event, effs))
              else (event,
                    effs @ [Log ''info'' [Str ''HEEEEEY'', Str eventType, Str filePath, Object d]])))"

section \<open>WatcherRegistry\<close>

text \<open>
  The options passed to \<^verbatim>\<open>chokidar.watch\<close>. The two regular expressions of \<^verbatim>\<open>ignored\<close>
  are sequences of atoms, searched for anywhere in a path (they are not anchored); the
  dot of a JavaScript regular expression matches any character but a line terminator.
\<close>

datatype atom = Lit char | OneOf "char list" | AnyChar

type_synonym regex = "atom list"

fun atom_matches :: "atom \<Rightarrow> char \<Rightarrow> bool" where
  "atom_matches (Lit c) x = (x = c)"
| "atom_matches (OneOf cs) x = (x \<in> set cs)"
| "atom_matches AnyChar x = (x \<noteq> CHR 0x0A \<and> x \<noteq> CHR 0x0D)"

fun match_here :: "regex \<Rightarrow> string \<Rightarrow> bool" where
  "match_here [] s = True"
| "match_here (a # as) [] = False"
| "match_here (a # as) (x # xs) = (atom_matches a x \<and> match_here as xs)"

fun regex_test :: "regex \<Rightarrow> string \<Rightarrow> bool" where
  "regex_test r [] = match_here r []"
| "regex_test r (x # xs) = (match_here r (x # xs) \<or> regex_test r xs)"

record watch_options =
  awaitWriteFinish :: bool
  persistent :: bool
  followSymlinks :: bool
  usePolling :: bool
  depth :: nat
  ignorePermissionErrors :: bool
  ignored :: "regex list"
  ignoreInitial :: bool

text \<open>A path is ignored by a watcher when one of its \<^verbatim>\<open>ignored\<close> patterns matches it.\<close>

definition is_ignored :: "watch_options \<Rightarrow> string \<Rightarrow> bool" where
  "is_ignored opts p = list_ex (\<lambda>r. regex_test r p) (ignored opts)"

text \<open>A watch target is one path or an array of paths.\<close>

datatype target = Path string | Paths "string list"

fun target_val :: "target \<Rightarrow> jsval" where
  "target_val (Path s) = Str s"
| "target_val (Paths ss) = Array (map Str ss)"

text \<open>
  A chokidar watcher: the targets it was given (by \<^verbatim>\<open>watch\<close> and by \<^verbatim>\<open>add\<close>), its options,
  the events it has listeners for, and whether \<^verbatim>\<open>close\<close> was called on it. \<open>requester\<close>
  is a ghost field: the identity whose \<^verbatim>\<open>startWatching\<close> call created the watcher.
  The module's state is the object \<^verbatim>\<open>fileWatchers\<close> (own properties in insertion order,
  each holding a watcher, here its handle), the watchers created so far, and the trace.
  JavaScript enumerates integer-like keys before the others; the order of enumeration
  only decides in which order \<^verbatim>\<open>stopWatching()\<close> closes the watchers.
\<close>

record watcher =
  requester :: string
  emitter :: string
  watched :: "target list"
  options :: watch_options
  listeners :: "string list"
  closed :: bool

record state =
  fileWatchers :: "(string \<times> nat) list"
  sessions :: "watcher list"
  effects :: "effect list"

text \<open>
  \<^verbatim>\<open>fileWatchers\<close> is a plain object (\<^verbatim>\<open>fileWatchers = {}\<close>), so the read
  \<^verbatim>\<open>fileWatchers[requesterId]\<close> also finds what the object inherits from
  \<^verbatim>\<open>Object.prototype\<close>: for one of the names below it yields a function (for \<^verbatim>\<open>__proto__\<close> the
  prototype itself), which is truthy and has neither a \<^verbatim>\<open>close\<close> nor an \<^verbatim>\<open>add\<close> method. An own
  property shadows an inherited one.
\<close>

definition object_prototype_names :: "string list" where
  "object_prototype_names =
     [''constructor'', ''__defineGetter__'', ''__defineSetter__'', ''hasOwnProperty'',
      ''__lookupGetter__'', ''__lookupSetter__'', ''isPrototypeOf'', ''propertyIsEnumerable'',
      ''toString'', ''valueOf'', ''__proto__'', ''toLocaleString'']"

datatype slot = Absent | Watcher nat | Inherited

definition lookup :: "(string \<times> nat) list \<Rightarrow> string \<Rightarrow> slot" where
  "lookup registry requesterId =
     (case map_of registry requesterId of
        Some h \<Rightarrow> Watcher h
      | None \<Rightarrow> if requesterId \<in> set object_prototype_names then Inherited else Absent)"

text \<open>
  A call either returns or throws; either way it leaves a state. \<open>stopWatching\<close> throws
  before it has changed anything, so its exception is a plain \<open>Inl\<close>.
\<close>

datatype completion = Returns (final: state) | Throws js_error (final: state)

definition init :: state where
  "init = \<lparr>fileWatchers = [], sessions = [], effects = []\<rparr>"

definition log :: "string \<Rightarrow> jsval list \<Rightarrow> state \<Rightarrow> state" where
  "log lvl args st = st\<lparr>effects := effects st @ [Log lvl args]\<rparr>"

text \<open>
  \<^verbatim>\<open>chokidar.watch(fileTarget, options)\<close> followed by the chain of \<^verbatim>\<open>.on(...)\<close> calls: a new
  watcher, open, with its listeners. \<^verbatim>\<open>watcher.close()\<close> closes the native handles and
  removes all listeners; \<^verbatim>\<open>watcher.add(target)\<close> extends the watched set and marks the
  watcher as open again.
\<close>

definition chokidar_watch ::
  "string \<Rightarrow> string \<Rightarrow> target \<Rightarrow> watch_options \<Rightarrow> state \<Rightarrow> nat \<times> state" where
  "chokidar_watch ipcEmitter requesterId fileTarget opts st =
     (let h = length (sessions st);
          w = \<lparr>requester = requesterId, emitter = ipcEmitter, watched = [fileTarget],
               options = opts,
               listeners = [''add'', ''change'', ''unlink'', ''addDir'', ''unlinkDir'', ''error'',
                            ''ready'', ''all''],
               closed = False\<rparr>
      in (h, st\<lparr>sessions := sessions st @ [w], effects := effects st @ [Watch h]\<rparr>))"

definition watcher_close :: "nat \<Rightarrow> state \<Rightarrow> state" where
  "watcher_close h st =
     (if h < length (sessions st)
      then st\<lparr>sessions := (sessions st)[h := (sessions st ! h)\<lparr>closed := True, listeners := []\<rparr>],
              effects := effects st @ [Close h]\<rparr>
      else st)"

definition watcher_add :: "nat \<Rightarrow> target \<Rightarrow> state \<Rightarrow> state" where
  "watcher_add h fileTarget st =
     (if h < length (sessions st)
      then st\<lparr>sessions := (sessions st)[h := (sessions st ! h)
                                \<lparr>watched := watched (sessions st ! h) @ [fileTarget],
                                 closed := False\<rparr>],
              effects := effects st @ [Add h (target_val fileTarget)]\<rparr>
      else st)"

text \<open>
  \<^verbatim>\<open>
  if (_.isArray(fileTarget)) {
    fileTarget = _.map(fileTarget, str => resolveHomeDirectory(str));
  } else if (_.isString(fileTarget)) {
    fileTarget = resolveHomeDirectory(fileTarget);
  }
  \<close>
\<close>

fun resolveTarget :: "platform \<Rightarrow> target \<Rightarrow> target" where
  "resolveTarget P (Paths ss) = Paths (map (resolveHomeDirectory P) ss)"
| "resolveTarget P (Path s) = Path (resolveHomeDirectory P s)"

text \<open>
  \<^verbatim>\<open>
  function stopWatching(requesterId) {
    if (requesterId) {
      fileWatchers[requesterId].close();
      delete fileWatchers[requesterId];
    } else {
      _.each(fileWatchers, watcher => watcher.close());
    }
  }
  \<close>
  The argument is optional; \<^verbatim>\<open>undefined\<close> and the empty string are falsy. Calling \<^verbatim>\<open>close\<close>
  on the \<^verbatim>\<open>undefined\<close> that an unregistered identity reads, or on an inherited value,
  throws a \<^verbatim>\<open>TypeError\<close>. \<^verbatim>\<open>_.each\<close> visits the own properties only.
\<close>

definition truthy :: "string option \<Rightarrow> bool" where
  "truthy requesterId = (case requesterId of None \<Rightarrow> False | Some r \<Rightarrow> r \<noteq> [])"

definition stopWatching :: "string option \<Rightarrow> state \<Rightarrow> js_error + state" where
  "stopWatching requesterId st =
     (case requesterId of
        None \<Rightarrow> Inr (fold watcher_close (map snd (fileWatchers st)) st)
      | Some r \<Rightarrow>
          (if truthy (Some r) then
             (case lookup (fileWatchers st) r of
                Absent \<Rightarrow> Inl (TypeError ''Cannot read property close of undefined'')
              | Inherited \<Rightarrow> Inl (TypeError ''fileWatchers[requesterId].close is not a function'')
              | Watcher h \<Rightarrow>
                  (let st1 = watcher_close h st
                   in Inr (st1\<lparr>fileWatchers := AList.delete r (fileWatchers st1)\<rparr>)))
           else Inr (fold watcher_close (map snd (fileWatchers st)) st)))"

text \<open>
  \<^verbatim>\<open>
  function startWatching(ipcEmitter, requesterId, fileTarget) {
    ... resolve the target ...
    log('info', 'startWatching', requesterId, fileTarget);
    const watcher = chokidar.watch(fileTarget, {
      awaitWriteFinish: true,
      persistent: true,
      followSymlinks: false,
      usePolling: false,
      depth: 1, // graphics beyond this get weird,
      ignorePermissionErrors: false,
      ignored: [/[\/\\]\./, /rodeo.log/],
      ignoreInitial: true
    });
    watcher.on('add', ...) ... .on('all', ...);
    if (fileWatchers[requesterId]) {
      stopWatching(requesterId);
    }
    fileWatchers[requesterId] = watcher;
  }
  \<close>
\<close>

definition watch_policy :: watch_options where
  "watch_policy =
     \<lparr>awaitWriteFinish = True, persistent = True, followSymlinks = False, usePolling = False,
      depth = 1, ignorePermissionErrors = False,
      ignored = [[OneOf [CHR ''/'', CHR 0x5C], Lit CHR ''.''],
                 [Lit CHR ''r'', Lit CHR ''o'', Lit CHR ''d'', Lit CHR ''e'', Lit CHR ''o'', AnyChar,
                  Lit CHR ''l'', Lit CHR ''o'', Lit CHR ''g'']],
      ignoreInitial = True\<rparr>"

text \<open>The state right after the watcher is created, before the registry is touched.\<close>

definition startWatching_created :: "platform \<Rightarrow> string \<Rightarrow> string \<Rightarrow> target \<Rightarrow> state \<Rightarrow> nat \<times> state" where
  "startWatching_created P ipcEmitter requesterId fileTarget st =
     (let fileTarget' = resolveTarget P fileTarget;
          st1 = log ''info'' [Str ''startWatching'', Str requesterId, target_val fileTarget'] st
      in chokidar_watch ipcEmitter requesterId fileTarget' watch_policy st1)"

text \<open>
  When \<open>stopWatching\<close> throws, the exception leaves \<open>startWatching\<close> after the watcher
  was created and before it is registered.
\<close>

definition startWatching :: "platform \<Rightarrow> string \<Rightarrow> string \<Rightarrow> target \<Rightarrow> state \<Rightarrow> completion" where
  "startWatching P ipcEmitter requesterId fileTarget st =
     (case startWatching_created P ipcEmitter requesterId fileTarget st of
        (w, st2) \<Rightarrow>
          (case (if lookup (fileWatchers st2) requesterId \<noteq> Absent
                 then stopWatching (Some requesterId) st2 else Inr st2) of
             Inl e \<Rightarrow> Throws e st2
           | Inr st3 \<Rightarrow>
               Returns (st3\<lparr>fileWatchers := AList.update requesterId w (fileWatchers st3)\<rparr>)))"

text \<open>
  \<^verbatim>\<open>
  function addWatching(requesterId, fileTarget) {
    ... resolve the target ...
    log('info', 'addWatching', requesterId, fileTarget);
    if (fileWatchers[requesterId]) {
      fileWatchers[requesterId].add(fileTarget);
    }
  }
  \<close>
\<close>

definition addWatching :: "platform \<Rightarrow> string \<Rightarrow> target \<Rightarrow> state \<Rightarrow> completion" where
  "addWatching P requesterId fileTarget st =
     (let fileTarget' = resolveTarget P fileTarget;
          st1 = log ''info'' [Str ''addWatching'', Str requesterId, target_val fileTarget'] st
      in case lookup (fileWatchers st1) requesterId of
           Watcher h \<Rightarrow> Returns (watcher_add h fileTarget' st1)
         | Inherited \<Rightarrow> Throws (TypeError ''fileWatchers[requesterId].add is not a function'') st1
         | Absent \<Rightarrow> Returns st1)"

text \<open>
  The states the module can be in: those reached from the initial one by calls of its
  three watch functions, whether they return or throw.
\<close>

inductive reachable :: "state \<Rightarrow> bool" where
  reach_init: "reachable init"
| reach_start: "reachable st \<Longrightarrow> reachable (final (startWatching P ipcEmitter requesterId fileTarget st))"
| reach_stop: "reachable st \<Longrightarrow> stopWatching requesterId st = Inr st' \<Longrightarrow> reachable st'"
| reach_add: "reachable st \<Longrightarrow> reachable (final (addWatching P requesterId fileTarget st))"

text \<open>The open watchers created for an identity: its active sessions.\<close>

definition active :: "state \<Rightarrow> string \<Rightarrow> nat list" where
  "active st r =
     filter (\<lambda>h. requester (sessions st ! h) = r \<and> \<not> closed (sessions st ! h))
       [0..<length (sessions st)]"

section \<open>A concrete host\<close>

text \<open>
  A POSIX host with home directory \<^verbatim>\<open>/home/u\<close> and a small file system: the directory
  \<^verbatim>\<open>/home/u/docs\<close> enumerates five names, of which \<^verbatim>\<open>gone\<close> and \<^verbatim>\<open>lost\<close> can no longer be
  examined and \<^verbatim>\<open>link\<close> can only be examined by \<^verbatim>\<open>stat\<close>; \<^verbatim>\<open>JSON.parse\<close> is given on the two
  file contents that occur.
\<close>

definition file_stats :: fs_Stats where
  "file_stats = \<lparr>st_isDirectory = False, st_isFile = True, st_isSymbolicLink = False,
                 st_size = 12, st_mtime = 1000\<rparr>"

definition dir_stats :: fs_Stats where
  "dir_stats = \<lparr>st_isDirectory = True, st_isFile = False, st_isSymbolicLink = False,
                st_size = 4096, st_mtime = 2000\<rparr>"

definition posix_host :: platform where
  "posix_host =
     \<lparr>os_homedir = ''/home/u'', path_join = posix_join, path_posix_parse = posix_parse,
      fs_readdir = (\<lambda>p. if p = ''/home/u/docs'' then Inr [''a.txt'', ''gone'', ''link'', ''lost'', ''sub'']
                         else Inl (FsError ''ENOENT'')),
      fs_lstat = (\<lambda>p. if p = ''/home/u/docs/a.txt'' then Inr file_stats
                       else if p = ''/home/u/docs/sub'' then Inr dir_stats
                       else if p = ''/home/u/docs/link'' then Inl (FsError ''EACCES'')
                       else Inl (FsError ''ENOENT'')),
      fs_stat = (\<lambda>p. if p = ''/home/u/docs/link'' then Inr file_stats
                      else Inl (FsError ''ENOENT'')),
      fs_readFileSync = (\<lambda>p. if p = ''/home/u/ok.json'' then Inr ''{}''
                              else if p = ''/home/u/bad.json'' then Inr ''{''
                              else Inl (FsError ''ENOENT'')),
      JSON_parse = (\<lambda>s. if s = ''{}'' then Inr (Object [])
                         else Inl (SyntaxError ''Unexpected end of JSON input''))\<rparr>"

section \<open>Vocabulary of the properties\<close>



definition expected_snapshot :: "string \<Rightarrow> parsed_path \<Rightarrow> fs_Stats \<Rightarrow> js_object" where
  "expected_snapshot fullPath parsed s =
     [(''size'', Num (st_size s)), (''mtime'', Num (st_mtime s)),
      (''isDirectory'', Bool (st_isDirectory s)), (''isFile'', Bool (st_isFile s)),
      (''isSymbolicLink'', Bool (st_isSymbolicLink s)), (''path'', Str fullPath),
      (''root'', Str (root parsed)), (''dir'', Str (dir parsed)), (''base'', Str (base parsed)),
      (''ext'', Str (ext parsed)), (''name'', Str (name parsed))]"





text \<open>
  A path segment that \<^verbatim>\<open>path.join\<close> leaves alone on a POSIX host, and the path made of
  such segments, each after a slash.
\<close>

definition plain_segment :: "string \<Rightarrow> bool" where
  "plain_segment seg = (seg \<noteq> [] \<and> CHR ''/'' \<notin> set seg \<and> seg \<noteq> ''.'' \<and> seg \<noteq> ''..'')"

definition slashed :: "string list \<Rightarrow> string" where
  "slashed segs = concat (map (\<lambda>seg. CHR ''/'' # seg) segs)"

text \<open>
  What \<^verbatim>\<open>_.result(stats, key, false)\<close> makes of the value of a property: a method is called,
  a missing property is \<^verbatim>\<open>false\<close>. The property names a translated detail sets itself.
\<close>

definition materialised :: "jsval \<Rightarrow> jsval" where
  "materialised v = (case v of Undefined \<Rightarrow> Bool False | Method r \<Rightarrow> r | _ \<Rightarrow> v)"

definition snapshot_keys :: "string list" where
  "snapshot_keys =
     [''isDirectory'', ''isFile'', ''isSymbolicLink'', ''path'', ''root'', ''dir'', ''base'',
      ''ext'', ''name'']"

text \<open>
  The invariant of the registry: a registered watcher was created for the identity it is
  registered under; an open watcher whose identity is not an inherited name is the one
  registered for its identity; and every registered handle denotes a watcher.
\<close>

definition registry_inv :: "state \<Rightarrow> bool" where
  "registry_inv st \<longleftrightarrow>
     (\<forall>r h. map_of (fileWatchers st) r = Some h \<longrightarrow> requester (sessions st ! h) = r)
     \<and> (\<forall>h < length (sessions st).
          \<not> closed (sessions st ! h) \<and> requester (sessions st ! h) \<notin> set object_prototype_names
          \<longrightarrow> map_of (fileWatchers st) (requester (sessions st ! h)) = Some h)
     \<and> (\<forall>h \<in> set (map snd (fileWatchers st)). h < length (sessions st))"

text \<open>The state after \<^verbatim>\<open>startWatching(ipc, 'file-viewer', '~/docs/*')\<close> on the concrete host.\<close>

definition one_session :: state where
  "one_session =
     \<lparr>fileWatchers = [(''file-viewer'', 0)],
      sessions = [\<lparr>requester = ''file-viewer'', emitter = ''ipc'',
                   watched = [Path ''/home/u/docs/*''], options = watch_policy,
                   listeners = [''add'', ''change'', ''unlink'', ''addDir'', ''unlinkDir'',
                                ''error'', ''ready'', ''all''],
                   closed = False\<rparr>],
      effects = [Log ''info'' [Str ''startWatching'', Str ''file-viewer'', Str ''/home/u/docs/*''],
                 Watch 0]\<rparr>"

section \<open>Properties of the PathResolver\<close>

lemma getSubstitution_plain:
  "CHR ''$'' \<notin> set r \<Longrightarrow> getSubstitution m a r = r"
  by (induction m a r rule: getSubstitution.induct) auto

lemma startsWith_Cons: "startsWith (c # s) [c]"
  by (simp add: startsWith_def)

lemma replace_prefix_tilde:
  "CHR ''$'' \<notin> set home \<Longrightarrow> replace_prefix ''~'' home (CHR ''~'' # rest) = home @ rest"
  by (simp add: replace_prefix_def startsWith_def substr_def getSubstitution_plain)

lemma replace_prefix_miss:
  "\<not> startsWith str token \<Longrightarrow> replace_prefix token home str = str"
  by (simp add: replace_prefix_def)

lemma not_startsWith_HOME:
  "home \<noteq> [] \<Longrightarrow> hd home \<noteq> CHR ''%'' \<Longrightarrow> \<not> startsWith (home @ rest) ''%HOME%''"
  by (cases home) (auto simp: startsWith_def)

lemma resolveHomeDirectory_tilde:
  assumes "CHR ''$'' \<notin> set (os_homedir P)" "os_homedir P \<noteq> []" "hd (os_homedir P) \<noteq> CHR ''%''"
  shows "resolveHomeDirectory P (CHR ''~'' # rest) = os_homedir P @ rest"
  using assms
  by (simp add: resolveHomeDirectory_def startsWith_Cons replace_prefix_tilde
        replace_prefix_miss not_startsWith_HOME)

lemma posix_host_simps:
  "os_homedir posix_host = ''/home/u''" "path_join posix_host = posix_join"
  "path_posix_parse posix_host = posix_parse"
  by (simp_all add: posix_host_def)

lemma resolveHomeDirectory_HOME:
  assumes "CHR ''$'' \<notin> set (os_homedir P)"
  shows "resolveHomeDirectory P (''%HOME%'' @ rest) = os_homedir P @ rest"
  using assms
  by (simp add: resolveHomeDirectory_def startsWith_def replace_prefix_def substr_def
        getSubstitution_plain)

lemma shorten_home_prefixed:
  "getWithHomeDirectoryShortName P (os_homedir P @ rest) = path_join P ''~'' rest"
  by (simp add: getWithHomeDirectoryShortName_def startsWith_def substr_def)

lemma split_on_nonempty: "split_on c s \<noteq> []"
  by (induction s) (auto split: list.splits)

lemma split_on_prefix:
  "c \<notin> set s \<Longrightarrow> split_on c (s @ c # t) = s # split_on c t"
  by (induction s) (auto split: list.splits simp: split_on_nonempty)

lemma split_on_free: "c \<notin> set s \<Longrightarrow> split_on c s = [s]"
  by (induction s) auto

lemma split_on_join_with:
  "segs \<noteq> [] \<Longrightarrow> \<forall>seg \<in> set segs. c \<notin> set seg \<Longrightarrow> split_on c (join_with c segs) = segs"
proof (induction c segs rule: join_with.induct)
  case (1 c)
  then show ?case by simp
next
  case (2 c seg)
  then show ?case by (simp add: split_on_free)
next
  case (3 c seg v va)
  then show ?case by (simp add: split_on_prefix)
qed

lemma join_with_slashed:
  "join_with CHR ''/'' (seg # segs) = seg @ slashed segs"
  by (induction segs arbitrary: seg) (simp_all add: slashed_def)

lemma normalizeArray_plain:
  "\<forall>p \<in> set parts. p = [] \<or> plain_segment p \<Longrightarrow>
   normalizeArray a res parts = res @ filter (\<lambda>p. p \<noteq> []) parts"
  by (induction parts arbitrary: res) (auto simp: plain_segment_def)

lemma last_slashed:
  "segs \<noteq> [] \<Longrightarrow> \<forall>seg \<in> set segs. plain_segment seg \<Longrightarrow> last (''~'' @ slashed segs) \<noteq> CHR ''/''"
proof (induction segs rule: rev_induct)
  case Nil
  then show ?case by simp
next
  case (snoc seg segs)
  then have "seg \<noteq> []" "CHR ''/'' \<notin> set seg"
    by (simp_all add: plain_segment_def)
  then have "last seg \<noteq> CHR ''/''"
    by (metis last_in_set)
  with \<open>seg \<noteq> []\<close> show ?case
    by (simp add: slashed_def)
qed

lemma posix_join_slashed:
  assumes "\<forall>seg \<in> set segs. plain_segment seg"
  shows "posix_join ''~'' (slashed segs) = ''~'' @ slashed segs"
proof (cases segs)
  case Nil
  then show ?thesis
    by (simp add: slashed_def posix_join_def posix_normalize_def)
next
  case (Cons seg rest)
  let ?parts = "''~'' # [] # segs"
  have free: "\<forall>p \<in> set ?parts. CHR ''/'' \<notin> set p"
    using assms by (auto simp: plain_segment_def)
  have joined: "''~'' @ ''/'' @ slashed segs = join_with CHR ''/'' ?parts"
    using Cons by (simp add: join_with_slashed slashed_def)
  have split: "split_on CHR ''/'' (''~'' @ ''/'' @ slashed segs) = ?parts"
    unfolding joined using free by (intro split_on_join_with) simp_all
  have tilde: "plain_segment ''~''"
    by (simp add: plain_segment_def)
  have norm: "normalizeArray True [] ?parts = ''~'' # segs"
    using assms tilde
    by (subst normalizeArray_plain) (auto simp: plain_segment_def)
  have ne: "slashed segs \<noteq> []"
    using Cons by (simp add: slashed_def)
  have last: "last (''~'' @ ''/'' @ slashed segs) \<noteq> CHR ''/''"
    using last_slashed [of segs] assms Cons ne by simp
  show ?thesis
    using ne last
    by (simp add: posix_join_def posix_normalize_def split [simplified] norm [simplified]
          join_with_slashed Let_def)
qed

text \<open>
  Claim C7, as the code has it. On a host whose home directory is not empty, contains no
  dollar sign and does not begin with a percent sign, shortening the resolved path of
  \<open>''~'' @ rest\<close> yields \<^verbatim>\<open>path.join('~', rest)\<close>; so does, on a host whose home directory
  contains no dollar sign, shortening the resolved path of \<open>''%HOME%'' @ rest\<close>. With the
  POSIX \<^verbatim>\<open>path.join\<close> the round trip is the identity on \<^verbatim>\<open>~\<close> followed by any number of plain
  segments, each after one slash. A path that begins neither with \<^verbatim>\<open>~\<close> nor with \<^verbatim>\<open>%HOME%\<close> is
  returned unchanged by \<open>resolveHomeDirectory\<close>.
\<close>

theorem shorten_after_resolve:
  "(CHR ''$'' \<notin> set (os_homedir P) \<and> os_homedir P \<noteq> [] \<and> hd (os_homedir P) \<noteq> CHR ''%''
      \<longrightarrow> getWithHomeDirectoryShortName P (resolveHomeDirectory P (''~'' @ rest))
            = path_join P ''~'' rest)
   \<and> (CHR ''$'' \<notin> set (os_homedir P)
      \<longrightarrow> getWithHomeDirectoryShortName P (resolveHomeDirectory P (''%HOME%'' @ rest))
            = path_join P ''~'' rest)
   \<and> (CHR ''$'' \<notin> set (os_homedir P) \<and> os_homedir P \<noteq> [] \<and> hd (os_homedir P) \<noteq> CHR ''%''
       \<and> path_join P = posix_join \<and> (\<forall>seg \<in> set segs. plain_segment seg)
      \<longrightarrow> getWithHomeDirectoryShortName P (resolveHomeDirectory P (''~'' @ slashed segs))
            = ''~'' @ slashed segs)
   \<and> (\<not> startsWith p ''~'' \<and> \<not> startsWith p ''%HOME%'' \<longrightarrow> resolveHomeDirectory P p = p)"
proof (intro conjI impI)
  assume "CHR ''$'' \<notin> set (os_homedir P) \<and> os_homedir P \<noteq> [] \<and> hd (os_homedir P) \<noteq> CHR ''%''"
  then have "resolveHomeDirectory P (''~'' @ rest) = os_homedir P @ rest"
    by (simp add: resolveHomeDirectory_tilde)
  then show "getWithHomeDirectoryShortName P (resolveHomeDirectory P (''~'' @ rest))
             = path_join P ''~'' rest"
    by (simp only: shorten_home_prefixed)
next
  assume "CHR ''$'' \<notin> set (os_homedir P)"
  then have "resolveHomeDirectory P (''%HOME%'' @ rest) = os_homedir P @ rest"
    by (rule resolveHomeDirectory_HOME)
  then show "getWithHomeDirectoryShortName P (resolveHomeDirectory P (''%HOME%'' @ rest))
             = path_join P ''~'' rest"
    by (simp only: shorten_home_prefixed)
next
  assume a: "CHR ''$'' \<notin> set (os_homedir P) \<and> os_homedir P \<noteq> [] \<and> hd (os_homedir P) \<noteq> CHR ''%''
       \<and> path_join P = posix_join \<and> (\<forall>seg \<in> set segs. plain_segment seg)"
  then have "resolveHomeDirectory P (''~'' @ slashed segs) = os_homedir P @ slashed segs"
    by (simp add: resolveHomeDirectory_tilde)
  then have "getWithHomeDirectoryShortName P (resolveHomeDirectory P (''~'' @ slashed segs))
             = path_join P ''~'' (slashed segs)"
    by (simp only: shorten_home_prefixed)
  with a show "getWithHomeDirectoryShortName P (resolveHomeDirectory P (''~'' @ slashed segs))
             = ''~'' @ slashed segs"
    by (simp add: posix_join_slashed)
next
  assume "\<not> startsWith p ''~'' \<and> \<not> startsWith p ''%HOME%''"
  then show "resolveHomeDirectory P p = p"
    by (simp add: resolveHomeDirectory_def)
qed

text \<open>
  The theorem on the concrete host: \<^verbatim>\<open>~/docs/../notes\<close> and \<^verbatim>\<open>%HOME%/docs/../notes\<close> both come
  back as \<^verbatim>\<open>path.join('~', '/docs/../notes')\<close>, \<^verbatim>\<open>~/docs/a.txt\<close> comes back as itself, and
  \<^verbatim>\<open>/tmp/x\<close> is not touched.
\<close>

theorem shorten_after_resolve_witness:
  "getWithHomeDirectoryShortName posix_host (resolveHomeDirectory posix_host ''~/docs/../notes'')
     = posix_join ''~'' ''/docs/../notes''
   \<and> getWithHomeDirectoryShortName posix_host
        (resolveHomeDirectory posix_host ''%HOME%/docs/../notes'')
     = posix_join ''~'' ''/docs/../notes''
   \<and> getWithHomeDirectoryShortName posix_host (resolveHomeDirectory posix_host ''~/docs/a.txt'')
     = ''~/docs/a.txt''
   \<and> resolveHomeDirectory posix_host ''/tmp/x'' = ''/tmp/x''"
  using shorten_after_resolve [of posix_host "''/docs/../notes''" "[''docs'', ''a.txt'']" "''/tmp/x''"]
  by (simp add: posix_host_simps startsWith_def plain_segment_def slashed_def)

text \<open>
  Claim C7 as stated fails: \<^verbatim>\<open>~/docs/../notes\<close> begins with the placeholder and comes back as
  \<^verbatim>\<open>~/notes\<close>, because \<^verbatim>\<open>path.join\<close> normalises; \<^verbatim>\<open>%HOME%/docs\<close> begins with the other
  placeholder token and comes back as \<^verbatim>\<open>~/docs\<close>.
\<close>

theorem roundtrip_counterexample:
  "startsWith ''~/docs/../notes'' ''~''
   \<and> getWithHomeDirectoryShortName posix_host (resolveHomeDirectory posix_host ''~/docs/../notes'')
       \<noteq> ''~/docs/../notes''
   \<and> startsWith ''%HOME%/docs'' ''%HOME%''
   \<and> getWithHomeDirectoryShortName posix_host (resolveHomeDirectory posix_host ''%HOME%/docs'')
       \<noteq> ''%HOME%/docs''"
  by (simp add: posix_host_simps startsWith_def getWithHomeDirectoryShortName_def
        resolveHomeDirectory_def replace_prefix_def substr_def posix_join_def posix_normalize_def)

section \<open>Properties of the StatSnapshotter\<close>

lemma normalizeObject_stats_object:
  "normalizeObject (stats_object s) =
     [(''size'', Num (st_size s)), (''mtime'', Num (st_mtime s)),
      (''isDirectory'', Bool (st_isDirectory s)), (''isFile'', Bool (st_isFile s)),
      (''isSymbolicLink'', Bool (st_isSymbolicLink s))]"
  by (simp add: normalizeObject_def stats_object_def set_prop_def result_def get_prop_def)

lemma posix_host_fs:
  "fs_lstat posix_host p =
     (if p = ''/home/u/docs/a.txt'' then Inr file_stats
      else if p = ''/home/u/docs/sub'' then Inr dir_stats
      else if p = ''/home/u/docs/link'' then Inl (FsError ''EACCES'')
      else Inl (FsError ''ENOENT''))"
  "fs_stat posix_host p =
     (if p = ''/home/u/docs/link'' then Inr file_stats else Inl (FsError ''ENOENT''))"
  "fs_readdir posix_host p =
     (if p = ''/home/u/docs'' then Inr [''a.txt'', ''gone'', ''link'', ''lost'', ''sub'']
      else Inl (FsError ''ENOENT''))"
  "fs_readFileSync posix_host p =
     (if p = ''/home/u/ok.json'' then Inr ''{}''
      else if p = ''/home/u/bad.json'' then Inr ''{''
      else Inl (FsError ''ENOENT''))"
  "JSON_parse posix_host c =
     (if c = ''{}'' then Inr (Object []) else Inl (SyntaxError ''Unexpected end of JSON input''))"
  by (simp_all add: posix_host_def)

lemma resolve_docs:
  "resolveHomeDirectory posix_host (''~/docs'' @ rest) = ''/home/u/docs'' @ rest"
  by (simp add: resolveHomeDirectory_def startsWith_def replace_prefix_def substr_def
        posix_host_simps)

text \<open>
  Claim C4. \<open>getStats\<close> calls \<^verbatim>\<open>lstat\<close> first, on the resolved path. When \<^verbatim>\<open>lstat\<close> succeeds,
  its result is the one normalised and returned, and nothing else happens. When it fails,
  a warning is logged and \<^verbatim>\<open>stat\<close> is called; the outcome is then that of \<^verbatim>\<open>stat\<close>. So
  \<open>getStats\<close> fails exactly when both calls fail.
\<close>

theorem getStats_lstat_first:
  assumes "f = resolveHomeDirectory P filename"
  shows "(fs_lstat P f = Inr s \<longrightarrow>
            getStats P filename effs
              = (Inr (Some (normalizeObject (stats_object s))), effs @ [Syscall ''lstat'' f]))
       \<and> (fs_lstat P f = Inl e \<longrightarrow>
            snd (getStats P filename effs)
              = effs @ [Syscall ''lstat'' f, Log ''warn'' [Str ''lstat failed'', Str f, Exn e],
                        Syscall ''stat'' f]
            \<and> fst (getStats P filename effs)
              = (case fs_stat P f of
                   Inr s' \<Rightarrow> Inr (Some (normalizeObject (stats_object s')))
                 | Inl e' \<Rightarrow> Inl e'))
       \<and> ((\<exists>x. fst (getStats P filename effs) = Inl x)
            \<longleftrightarrow> (\<exists>e1 e2. fs_lstat P f = Inl e1 \<and> fs_stat P f = Inl e2))"
  using assms
  by (auto simp: getStats_def normalizeStats_def Let_def split: sum.splits)

text \<open>
  The theorem on the concrete host: \<^verbatim>\<open>a.txt\<close> is answered by \<^verbatim>\<open>lstat\<close>, \<^verbatim>\<open>link\<close> by the
  fallback, and \<^verbatim>\<open>gone\<close> fails both ways.
\<close>

theorem getStats_lstat_first_witness:
  "getStats posix_host ''~/docs/a.txt'' []
     = (Inr (Some (normalizeObject (stats_object file_stats))),
        [Syscall ''lstat'' ''/home/u/docs/a.txt''])
   \<and> getStats posix_host ''~/docs/link'' []
     = (Inr (Some (normalizeObject (stats_object file_stats))),
        [Syscall ''lstat'' ''/home/u/docs/link'',
         Log ''warn'' [Str ''lstat failed'', Str ''/home/u/docs/link'', Exn (FsError ''EACCES'')],
         Syscall ''stat'' ''/home/u/docs/link''])
   \<and> fst (getStats posix_host ''~/docs/gone'' []) = Inl (FsError ''ENOENT'')"
proof -
  have a: "''/home/u/docs/a.txt'' = resolveHomeDirectory posix_host ''~/docs/a.txt''"
    and l: "''/home/u/docs/link'' = resolveHomeDirectory posix_host ''~/docs/link''"
    and g: "''/home/u/docs/gone'' = resolveHomeDirectory posix_host ''~/docs/gone''"
    using resolve_docs [of "''/a.txt''"] resolve_docs [of "''/link''"] resolve_docs [of "''/gone''"]
    by simp_all
  show ?thesis
    using getStats_lstat_first [OF a, where s = file_stats and effs = "[]"]
      getStats_lstat_first [OF l, where e = "FsError ''EACCES''" and effs = "[]"]
      getStats_lstat_first [OF g, where e = "FsError ''ENOENT''" and effs = "[]"]
    by (simp add: posix_host_fs prod_eq_iff)
qed

section \<open>Properties of the configuration reader\<close>

text \<open>
  Claim C9, as the code has it. \<open>getJSONFileSafeSync\<close> never throws. A file that cannot be
  read yields \<^verbatim>\<open>null\<close> and logs nothing; a file that is read but is not valid JSON yields
  \<^verbatim>\<open>null\<close> and logs one warning; otherwise the parsed value is returned and nothing is
  logged.
\<close>

theorem getJSONFileSafeSync_cases:
  "(fs_readFileSync P filePath = Inl ex \<longrightarrow>
      getJSONFileSafeSync P filePath effs = (Null, effs @ [Syscall ''readFileSync'' filePath]))
   \<and> (fs_readFileSync P filePath = Inr contents \<and> JSON_parse P contents = Inl e \<longrightarrow>
      getJSONFileSafeSync P filePath effs
        = (Null, effs @ [Syscall ''readFileSync'' filePath,
                         Log ''warn'' [Str filePath, Str ''is not valid JSON'', Exn e]]))
   \<and> (fs_readFileSync P filePath = Inr contents \<and> JSON_parse P contents = Inr v \<longrightarrow>
      getJSONFileSafeSync P filePath effs = (v, effs @ [Syscall ''readFileSync'' filePath]))"
  by (simp add: getJSONFileSafeSync_def)

text \<open>The three cases on the concrete host.\<close>

theorem getJSONFileSafeSync_cases_witness:
  "getJSONFileSafeSync posix_host ''/home/u/bad.json'' []
     = (Null, [Syscall ''readFileSync'' ''/home/u/bad.json'',
               Log ''warn'' [Str ''/home/u/bad.json'', Str ''is not valid JSON'',
                            Exn (SyntaxError ''Unexpected end of JSON input'')]])
   \<and> getJSONFileSafeSync posix_host ''/home/u/ok.json'' []
     = (Object [], [Syscall ''readFileSync'' ''/home/u/ok.json''])
   \<and> getJSONFileSafeSync posix_host ''/home/u/none.json'' []
     = (Null, [Syscall ''readFileSync'' ''/home/u/none.json''])"
  using getJSONFileSafeSync_cases [where P = posix_host and filePath = "''/home/u/bad.json''"
            and effs = "[]" and contents = "''{''"
            and e = "SyntaxError ''Unexpected end of JSON input''"]
    getJSONFileSafeSync_cases [where P = posix_host and filePath = "''/home/u/ok.json''"
            and effs = "[]" and contents = "''{}''" and v = "Object []"]
    getJSONFileSafeSync_cases [where P = posix_host and filePath = "''/home/u/none.json''"
            and ex = "FsError ''ENOENT''" and effs = "[]"]
  by (simp add: posix_host_fs)

text \<open>
  Claim C9 as stated fails for the unreadable file: the result is \<^verbatim>\<open>null\<close>, and no warning
  is logged (the source says so: ``deliberately no warning'').
\<close>

theorem unreadable_config_counterexample:
  "fs_readFileSync posix_host ''/home/u/none.json'' = Inl (FsError ''ENOENT'')
   \<and> fst (getJSONFileSafeSync posix_host ''/home/u/none.json'' []) = Null
   \<and> warnings (snd (getJSONFileSafeSync posix_host ''/home/u/none.json'' [])) = []"
  by (simp add: getJSONFileSafeSync_def posix_host_fs warnings_def)

section \<open>Properties of the ChangeEventTranslator\<close>

lemma get_prop_set_prop:
  "get_prop (set_prop k v obj) k' = (if k' = k then v else get_prop obj k')"
  by (simp add: get_prop_def set_prop_def update_conv')

lemma isDirectory_after_normalize:
  "get_prop (normalizeObject obj) ''isDirectory'' = result obj ''isDirectory'' (Bool False)"
  by (simp add: normalizeObject_def Let_def get_prop_set_prop)

lemma result_defined:
  "result obj k (Bool False) \<noteq> Undefined \<longleftrightarrow> get_prop obj k \<noteq> Method Undefined"
  by (auto simp: result_def split: jsval.splits)

lemma map_of_set_prop:
  "map_of (set_prop k v obj) k' = (if k' = k then Some v else map_of obj k')"
  by (simp add: set_prop_def update_conv')

text \<open>
  When the translator attaches \<^verbatim>\<open>details\<close>: whenever a raw detail object is passed, unless
  its \<^verbatim>\<open>isDirectory\<close> is a method that returns \<^verbatim>\<open>undefined\<close>. The first call of
  \<open>normalizeStats\<close> gives every object an \<^verbatim>\<open>isDirectory\<close> (by default \<^verbatim>\<open>false\<close>) before the
  duck-typing test reads it.
\<close>

lemma token_details_iff:
  "map_of (fst (getFileSystemChangeToken P eventType filePath details effs)) ''details'' \<noteq> None
     \<longleftrightarrow> (\<exists>obj. details = Some obj \<and> get_prop obj ''isDirectory'' \<noteq> Method Undefined)"
  by (cases details)
    (simp_all add: getFileSystemChangeToken_def normalizeStats_def Let_def
       isDirectory_after_normalize result_defined map_of_set_prop)

text \<open>
  Claim C2 at the raw detail \<^verbatim>\<open>{}\<close>, an object that exposes no \<^verbatim>\<open>isDirectory\<close>: the event
  carries \<^verbatim>\<open>details\<close> all the same, and nothing is logged.
\<close>

theorem detail_without_isDirectory:
  "get_prop [] ''isDirectory'' = Undefined
   \<and> getFileSystemChangeToken posix_host ''add'' ''/home/u/docs/x'' (Some []) []
     = ([(''type'', Str ''FILE_SYSTEM_CHANGED''), (''eventType'', Str ''add''),
         (''path'', Str ''/home/u/docs/x''),
         (''details'', Object
            [(''isDirectory'', Bool False), (''isFile'', Bool False),
             (''isSymbolicLink'', Bool False), (''path'', Str ''/home/u/docs/x''),
             (''root'', Str ''/''), (''dir'', Str ''/home/u/docs''), (''base'', Str ''x''),
             (''ext'', Str []), (''name'', Str ''x'')])],
        [])"
  by (simp add: getFileSystemChangeToken_def normalizeStats_def normalizeObject_def Let_def
        set_prop_def result_def get_prop_def parsed_object_def posix_host_simps posix_parse_def)

lemma get_prop_assign_parsed:
  "get_prop (assign obj (parsed_object pp)) k =
     (if k = ''root'' then Str (root pp) else if k = ''dir'' then Str (dir pp)
      else if k = ''base'' then Str (base pp) else if k = ''ext'' then Str (ext pp)
      else if k = ''name'' then Str (name pp) else get_prop obj k)"
  by (simp add: parsed_object_def get_prop_set_prop)

lemma get_prop_normalizeObject:
  "get_prop (normalizeObject obj) k =
     (if k = ''isDirectory'' then result obj ''isDirectory'' (Bool False)
      else if k = ''isFile'' then result obj ''isFile'' (Bool False)
      else if k = ''isSymbolicLink'' then result obj ''isSymbolicLink'' (Bool False)
      else get_prop obj k)"
  by (simp add: normalizeObject_def Let_def get_prop_set_prop result_def)

lemma result_materialised: "result obj k (Bool False) = materialised (get_prop obj k)"
  by (simp add: result_def materialised_def split: jsval.splits)

lemma translated_stats:
  "assign (set_prop ''path'' (Str filePath) (normalizeObject (normalizeObject (stats_object s))))
     (parsed_object pp) = expected_snapshot filePath pp s"
  by (simp add: normalizeObject_def stats_object_def set_prop_def result_def get_prop_def
        parsed_object_def expected_snapshot_def)

text \<open>
  Claim C6, as the code has it. Every event of the translator is the object with the
  properties \<^verbatim>\<open>type\<close> (the constant \<^verbatim>\<open>FILE_SYSTEM_CHANGED\<close>), \<^verbatim>\<open>eventType\<close> (the event kind as
  it was passed), \<^verbatim>\<open>path\<close> and, optionally, \<^verbatim>\<open>details\<close>, in this order and with no other
  property. Without a raw detail there is no \<^verbatim>\<open>details\<close>. When \<^verbatim>\<open>details\<close> is there, it is the
  raw detail made a snapshot: its three predicates resolved twice (a method is
  called, a missing one is \<^verbatim>\<open>false\<close>), \<^verbatim>\<open>path\<close> the path of the event, the five components of \<^verbatim>\<open>path.posix.parse\<close>, and
  the other properties of the raw detail as they were. For an \<^verbatim>\<open>fs.Stats\<close> raw detail the event
  carries exactly its Stat Snapshot.
\<close>

theorem change_event_shape:
  assumes "ev = fst (getFileSystemChangeToken P eventType filePath details effs)"
    and "skeleton = [(''type'', Str ''FILE_SYSTEM_CHANGED''), (''eventType'', Str eventType),
                     (''path'', Str filePath)]"
    and "pp = path_posix_parse P filePath"
  shows "(details = None \<longrightarrow> ev = skeleton)
       \<and> (details = Some obj \<longrightarrow>
            ev = skeleton
            \<or> (\<exists>d. ev = skeleton @ [(''details'', Object d)]
                  \<and> get_prop d ''path'' = Str filePath
                  \<and> get_prop d ''root'' = Str (root pp) \<and> get_prop d ''dir'' = Str (dir pp)
                  \<and> get_prop d ''base'' = Str (base pp) \<and> get_prop d ''ext'' = Str (ext pp)
                  \<and> get_prop d ''name'' = Str (name pp)
                  \<and> get_prop d ''isDirectory''
                      = materialised (materialised (get_prop obj ''isDirectory''))
                  \<and> get_prop d ''isFile'' = materialised (materialised (get_prop obj ''isFile''))
                  \<and> get_prop d ''isSymbolicLink''
                      = materialised (materialised (get_prop obj ''isSymbolicLink''))
                  \<and> (\<forall>k. k \<notin> set snapshot_keys \<longrightarrow> get_prop d k = get_prop obj k)))
       \<and> (details = Some (stats_object s) \<longrightarrow>
            ev = skeleton @ [(''details'', Object (expected_snapshot filePath pp s))])"
proof (intro conjI impI)
  assume "details = None"
  with assms show "ev = skeleton"
    by (simp add: getFileSystemChangeToken_def normalizeStats_def)
next
  assume d: "details = Some obj"
  let ?n = "normalizeObject obj"
  let ?d = "assign (set_prop ''path'' (Str filePath) (normalizeObject ?n)) (parsed_object pp)"
  show "ev = skeleton
        \<or> (\<exists>d. ev = skeleton @ [(''details'', Object d)]
              \<and> get_prop d ''path'' = Str filePath
              \<and> get_prop d ''root'' = Str (root pp) \<and> get_prop d ''dir'' = Str (dir pp)
              \<and> get_prop d ''base'' = Str (base pp) \<and> get_prop d ''ext'' = Str (ext pp)
              \<and> get_prop d ''name'' = Str (name pp)
              \<and> get_prop d ''isDirectory''
                  = materialised (materialised (get_prop obj ''isDirectory''))
              \<and> get_prop d ''isFile'' = materialised (materialised (get_prop obj ''isFile''))
              \<and> get_prop d ''isSymbolicLink''
                  = materialised (materialised (get_prop obj ''isSymbolicLink''))
              \<and> (\<forall>k. k \<notin> set snapshot_keys \<longrightarrow> get_prop d k = get_prop obj k))"
  proof (cases "get_prop ?n ''isDirectory'' = Undefined")
    case True
    with assms d have "ev = skeleton"
      by (simp add: getFileSystemChangeToken_def normalizeStats_def)
    then show ?thesis ..
  next
    case False
    with assms d have e: "ev = skeleton @ [(''details'', Object ?d)]"
      by (simp add: getFileSystemChangeToken_def normalizeStats_def Let_def set_prop_def)
    have flags: "get_prop ?d ''isDirectory''
                   = materialised (materialised (get_prop obj ''isDirectory''))"
      "get_prop ?d ''isFile'' = materialised (materialised (get_prop obj ''isFile''))"
      "get_prop ?d ''isSymbolicLink''
         = materialised (materialised (get_prop obj ''isSymbolicLink''))"
      by (simp_all add: get_prop_assign_parsed get_prop_set_prop get_prop_normalizeObject
            result_materialised)
    have rest: "get_prop ?d k = get_prop obj k" if "k \<notin> set snapshot_keys" for k
      using that
      by (simp add: snapshot_keys_def get_prop_assign_parsed get_prop_set_prop
            get_prop_normalizeObject)
    have "get_prop ?d ''path'' = Str filePath"
      "get_prop ?d ''root'' = Str (root pp)" "get_prop ?d ''dir'' = Str (dir pp)"
      "get_prop ?d ''base'' = Str (base pp)" "get_prop ?d ''ext'' = Str (ext pp)"
      "get_prop ?d ''name'' = Str (name pp)"
      by (simp_all add: get_prop_assign_parsed get_prop_set_prop)
    with e flags rest show ?thesis by blast
  qed
next
  assume "details = Some (stats_object s)"
  moreover have "get_prop (normalizeObject (stats_object s)) ''isDirectory'' \<noteq> Undefined"
    by (simp add: normalizeObject_stats_object get_prop_def)
  ultimately show "ev = skeleton @ [(''details'', Object (expected_snapshot filePath pp s))]"
    using assms
    by (simp add: getFileSystemChangeToken_def normalizeStats_def Let_def translated_stats)
       (simp add: set_prop_def)
qed

text \<open>
  The theorem on the concrete host: an added file reported with its \<^verbatim>\<open>fs.Stats\<close>, and a
  removed file reported without a raw detail.
\<close>

theorem change_event_shape_witness:
  "fst (getFileSystemChangeToken posix_host ''add'' ''/home/u/docs/a.txt''
          (Some (stats_object file_stats)) [])
     = [(''type'', Str ''FILE_SYSTEM_CHANGED''), (''eventType'', Str ''add''),
        (''path'', Str ''/home/u/docs/a.txt''),
        (''details'', Object
           [(''size'', Num 12), (''mtime'', Num 1000), (''isDirectory'', Bool False),
            (''isFile'', Bool True), (''isSymbolicLink'', Bool False),
            (''path'', Str ''/home/u/docs/a.txt''), (''root'', Str ''/''),
            (''dir'', Str ''/home/u/docs''), (''base'', Str ''a.txt''), (''ext'', Str ''.txt''),
            (''name'', Str ''a'')])]
   \<and> fst (getFileSystemChangeToken posix_host ''unlink'' ''/home/u/docs/a.txt'' None [])
     = [(''type'', Str ''FILE_SYSTEM_CHANGED''), (''eventType'', Str ''unlink''),
        (''path'', Str ''/home/u/docs/a.txt'')]"
  using change_event_shape [OF refl refl refl, where details = "Some (stats_object file_stats)"
          and s = file_stats and P = posix_host and eventType = "''add''"
          and filePath = "''/home/u/docs/a.txt''" and effs = "[]"]
    change_event_shape [OF refl refl refl, where details = None and P = posix_host
          and eventType = "''unlink''" and filePath = "''/home/u/docs/a.txt''" and effs = "[]"]
  by (simp add: expected_snapshot_def file_stats_def posix_host_simps posix_parse_def)

text \<open>
  Claim C6 as stated fails: the event has no property named \<^verbatim>\<open>eventKind\<close>; the kind is in
  \<^verbatim>\<open>eventType\<close>.
\<close>

theorem eventKind_counterexample:
  "map_of (fst (getFileSystemChangeToken posix_host ''add'' ''/home/u/docs/x'' None []))
      ''eventKind'' = None
   \<and> map_of (fst (getFileSystemChangeToken posix_host ''add'' ''/home/u/docs/x'' None []))
      ''eventType'' = Some (Str ''add'')"
  by (simp add: getFileSystemChangeToken_def normalizeStats_def)

section \<open>Properties of the DirectoryListingService\<close>

lemma getStats_fst: "fst (getStats P f effs) = fst (getStats P f [])"
  by (simp add: getStats_def Let_def split: sum.splits)




















section \<open>The invariant of the WatcherRegistry\<close>

lemma registry_invI:
  assumes "\<And>r h. map_of (fileWatchers st) r = Some h \<Longrightarrow> requester (sessions st ! h) = r"
    and "\<And>h. h < length (sessions st) \<Longrightarrow> \<not> closed (sessions st ! h) \<Longrightarrow>
           requester (sessions st ! h) \<notin> set object_prototype_names \<Longrightarrow>
           map_of (fileWatchers st) (requester (sessions st ! h)) = Some h"
    and "\<And>h. h \<in> set (map snd (fileWatchers st)) \<Longrightarrow> h < length (sessions st)"
  shows "registry_inv st"
  using assms unfolding registry_inv_def by blast

lemma registry_inv_owner:
  "registry_inv st \<Longrightarrow> map_of (fileWatchers st) r = Some h \<Longrightarrow> requester (sessions st ! h) = r"
  unfolding registry_inv_def by blast

lemma registry_inv_open:
  "registry_inv st \<Longrightarrow> h < length (sessions st) \<Longrightarrow> \<not> closed (sessions st ! h) \<Longrightarrow>
   requester (sessions st ! h) \<notin> set object_prototype_names \<Longrightarrow>
   map_of (fileWatchers st) (requester (sessions st ! h)) = Some h"
  unfolding registry_inv_def by blast

lemma registry_inv_bound:
  "registry_inv st \<Longrightarrow> h \<in> set (map snd (fileWatchers st)) \<Longrightarrow> h < length (sessions st)"
  unfolding registry_inv_def by blast

lemma map_of_registered_mem:
  "map_of reg r = Some h \<Longrightarrow> h \<in> set (map snd reg)"
  by (metis map_of_SomeD image_eqI set_map snd_conv)

lemma registry_inv_lookup_bound:
  "registry_inv st \<Longrightarrow> map_of (fileWatchers st) r = Some h \<Longrightarrow> h < length (sessions st)"
  by (blast intro: registry_inv_bound map_of_registered_mem)

lemma set_delete_subset: "set (AList.delete k al) \<subseteq> set al"
  by (induction al) auto

lemma set_update_subset: "set (AList.update k v al) \<subseteq> insert (k, v) (set al)"
  by (induction al) auto

lemma lookup_registered: "map_of reg r = Some h \<Longrightarrow> lookup reg r = Watcher h"
  by (simp add: lookup_def)

lemma lookup_unregistered:
  "map_of reg r = None \<Longrightarrow>
   lookup reg r = (if r \<in> set object_prototype_names then Inherited else Absent)"
  by (simp add: lookup_def)

lemma inherited_nonempty: "r \<in> set object_prototype_names \<Longrightarrow> r \<noteq> []"
  by (auto simp: object_prototype_names_def)

lemma watcher_close_sel:
  "fileWatchers (watcher_close h st) = fileWatchers st"
  "length (sessions (watcher_close h st)) = length (sessions st)"
  by (simp_all add: watcher_close_def)

lemma watcher_close_nth:
  "i < length (sessions st) \<Longrightarrow>
   sessions (watcher_close h st) ! i
     = (if i = h then (sessions st ! i)\<lparr>closed := True, listeners := []\<rparr> else sessions st ! i)"
  by (simp add: watcher_close_def)

lemma fold_close_sel:
  "fileWatchers (fold watcher_close hs st) = fileWatchers st"
  "length (sessions (fold watcher_close hs st)) = length (sessions st)"
  by (induction hs arbitrary: st) (simp_all add: watcher_close_sel)

lemma fold_close_requester:
  "i < length (sessions st) \<Longrightarrow>
   requester (sessions (fold watcher_close hs st) ! i) = requester (sessions st ! i)"
  by (induction hs arbitrary: st) (simp_all add: watcher_close_sel watcher_close_nth)

lemma fold_close_options:
  "i < length (sessions st) \<Longrightarrow>
   options (sessions (fold watcher_close hs st) ! i) = options (sessions st ! i)"
  by (induction hs arbitrary: st) (simp_all add: watcher_close_sel watcher_close_nth)

lemma fold_close_closed:
  "i < length (sessions st) \<Longrightarrow>
   closed (sessions (fold watcher_close hs st) ! i) \<longleftrightarrow> closed (sessions st ! i) \<or> i \<in> set hs"
  by (induction hs arbitrary: st) (auto simp: watcher_close_sel watcher_close_nth)

lemma fold_close_listeners:
  "i < length (sessions st) \<Longrightarrow>
   listeners (sessions (fold watcher_close hs st) ! i)
     = (if i \<in> set hs then [] else listeners (sessions st ! i))"
  by (induction hs arbitrary: st) (auto simp: watcher_close_sel watcher_close_nth)

lemma stop_one:
  "r \<noteq> [] \<Longrightarrow> map_of (fileWatchers st) r = Some h \<Longrightarrow>
   stopWatching (Some r) st
     = Inr ((watcher_close h st)\<lparr>fileWatchers := AList.delete r (fileWatchers st)\<rparr>)"
  by (simp add: stopWatching_def truthy_def lookup_registered Let_def watcher_close_sel)

lemma stop_all:
  "\<not> truthy requesterId \<Longrightarrow>
   stopWatching requesterId st = Inr (fold watcher_close (map snd (fileWatchers st)) st)"
  by (cases requesterId) (simp_all add: stopWatching_def)

lemma stop_unregistered:
  "r \<noteq> [] \<Longrightarrow> map_of (fileWatchers st) r = None \<Longrightarrow>
   stopWatching (Some r) st
     = Inl (TypeError (if r \<in> set object_prototype_names
                       then ''fileWatchers[requesterId].close is not a function''
                       else ''Cannot read property close of undefined''))"
  by (simp add: stopWatching_def truthy_def lookup_unregistered)

lemma stop_returns_registered:
  assumes "stopWatching requesterId st = Inr st'" and "truthy requesterId"
  obtains r h where "requesterId = Some r" "r \<noteq> []" "map_of (fileWatchers st) r = Some h"
proof -
  from assms(2) obtain r where r: "requesterId = Some r" "r \<noteq> []"
    by (auto simp: truthy_def split: option.splits)
  show thesis
  proof (cases "map_of (fileWatchers st) r")
    case None
    with assms(1) r show thesis by (simp add: stop_unregistered)
  next
    case (Some h)
    with r show thesis by (rule that)
  qed
qed

lemma created_sel:
  "startWatching_created P ipc r t st = (w, st2) \<Longrightarrow>
   w = length (sessions st) \<and> fileWatchers st2 = fileWatchers st
   \<and> sessions st2 = sessions st @ [\<lparr>requester = r, emitter = ipc, watched = [resolveTarget P t],
        options = watch_policy,
        listeners = [''add'', ''change'', ''unlink'', ''addDir'', ''unlinkDir'', ''error'',
                     ''ready'', ''all''],
        closed = False\<rparr>]
   \<and> effects st2 = effects st @ [Log ''info'' [Str ''startWatching'', Str r,
                                    target_val (resolveTarget P t)], Watch (length (sessions st))]"
  by (auto simp: startWatching_created_def chokidar_watch_def log_def Let_def)

lemma registry_inv_init: "registry_inv init"
  by (simp add: registry_inv_def init_def)

lemma registry_inv_close_all:
  assumes inv: "registry_inv st"
  shows "registry_inv (fold watcher_close hs st)"
proof (rule registry_invI)
  fix r h assume "map_of (fileWatchers (fold watcher_close hs st)) r = Some h"
  then have m: "map_of (fileWatchers st) r = Some h" by (simp add: fold_close_sel)
  with inv show "requester (sessions (fold watcher_close hs st) ! h) = r"
    by (simp add: fold_close_requester registry_inv_lookup_bound registry_inv_owner)
next
  fix h assume "h < length (sessions (fold watcher_close hs st))"
    and "\<not> closed (sessions (fold watcher_close hs st) ! h)"
    and "requester (sessions (fold watcher_close hs st) ! h) \<notin> set object_prototype_names"
  then have "h < length (sessions st)" "\<not> closed (sessions st ! h)"
    "requester (sessions st ! h) \<notin> set object_prototype_names"
    by (simp_all add: fold_close_sel fold_close_closed fold_close_requester)
  with inv show "map_of (fileWatchers (fold watcher_close hs st))
                   (requester (sessions (fold watcher_close hs st) ! h)) = Some h"
    by (simp add: fold_close_sel fold_close_requester registry_inv_open)
next
  fix h assume "h \<in> set (map snd (fileWatchers (fold watcher_close hs st)))"
  with inv show "h < length (sessions (fold watcher_close hs st))"
    by (simp add: fold_close_sel registry_inv_bound)
qed

lemma watcher_close_requester:
  "i < length (sessions st) \<Longrightarrow>
   requester (sessions (watcher_close h st) ! i) = requester (sessions st ! i)"
  by (simp add: watcher_close_nth)

lemma watcher_close_closed:
  "i < length (sessions st) \<Longrightarrow>
   closed (sessions (watcher_close h st) ! i) \<longleftrightarrow> closed (sessions st ! i) \<or> i = h"
  by (simp add: watcher_close_nth)

lemma registry_inv_stop_one:
  assumes inv: "registry_inv st" and h: "map_of (fileWatchers st) r = Some h"
  shows "registry_inv ((watcher_close h st)\<lparr>fileWatchers := AList.delete r (fileWatchers st)\<rparr>)"
    (is "registry_inv ?st'")
proof (rule registry_invI)
  fix r' h' assume "map_of (fileWatchers ?st') r' = Some h'"
  then have m: "map_of (fileWatchers st) r' = Some h'"
    by (simp add: delete_conv' split: if_splits)
  with inv show "requester (sessions ?st' ! h') = r'"
    by (simp add: watcher_close_requester registry_inv_lookup_bound registry_inv_owner)
next
  fix h' assume "h' < length (sessions ?st')" "\<not> closed (sessions ?st' ! h')"
    "requester (sessions ?st' ! h') \<notin> set object_prototype_names"
  then have lt: "h' < length (sessions st)" and ne: "h' \<noteq> h"
    and op: "\<not> closed (sessions st ! h')"
    and ni: "requester (sessions st ! h') \<notin> set object_prototype_names"
    by (simp_all add: watcher_close_sel watcher_close_closed watcher_close_requester)
  from registry_inv_open [OF inv lt op ni]
  have m: "map_of (fileWatchers st) (requester (sessions st ! h')) = Some h'" .
  with h ne have "requester (sessions st ! h') \<noteq> r" by auto
  with m lt show "map_of (fileWatchers ?st') (requester (sessions ?st' ! h')) = Some h'"
    by (simp add: delete_conv' watcher_close_requester)
next
  fix h' assume "h' \<in> set (map snd (fileWatchers ?st'))"
  then have "h' \<in> set (map snd (fileWatchers st))"
    using set_delete_subset [of r "fileWatchers st"] by auto
  with inv show "h' < length (sessions ?st')"
    by (simp add: watcher_close_sel registry_inv_bound)
qed

lemma registry_inv_stop:
  assumes "registry_inv st" and "stopWatching requesterId st = Inr st'"
  shows "registry_inv st'"
proof (cases "truthy requesterId")
  case False
  with assms(2) have "st' = fold watcher_close (map snd (fileWatchers st)) st"
    by (simp add: stop_all)
  with assms(1) show ?thesis
    by (simp add: registry_inv_close_all)
next
  case True
  with assms(2) obtain r h where r: "requesterId = Some r" "r \<noteq> []"
    and h: "map_of (fileWatchers st) r = Some h"
    by (rule stop_returns_registered)
  have "st' = (watcher_close h st)\<lparr>fileWatchers := AList.delete r (fileWatchers st)\<rparr>"
    using assms(2) r h by (simp add: stop_one)
  with assms(1) h show ?thesis
    by (simp add: registry_inv_stop_one)
qed

lemma watcher_add_sel:
  "fileWatchers (watcher_add h t st) = fileWatchers st"
  "length (sessions (watcher_add h t st)) = length (sessions st)"
  by (simp_all add: watcher_add_def)

lemma watcher_add_nth:
  "i < length (sessions st) \<Longrightarrow>
   requester (sessions (watcher_add h t st) ! i) = requester (sessions st ! i)
   \<and> (closed (sessions (watcher_add h t st) ! i) \<longleftrightarrow> closed (sessions st ! i) \<and> i \<noteq> h)
   \<and> options (sessions (watcher_add h t st) ! i) = options (sessions st ! i)"
  by (simp add: watcher_add_def nth_list_update)

lemma log_sel:
  "fileWatchers (log lvl args st) = fileWatchers st"
  "sessions (log lvl args st) = sessions st"
  by (simp_all add: log_def)

lemma registry_inv_log: "registry_inv (log lvl args st) = registry_inv st"
  by (simp add: registry_inv_def log_sel)

lemma registry_inv_watcher_add:
  assumes inv: "registry_inv st" and reg: "map_of (fileWatchers st) r = Some h"
  shows "registry_inv (watcher_add h t st)"
proof (rule registry_invI)
  fix r' h' assume "map_of (fileWatchers (watcher_add h t st)) r' = Some h'"
  then have "map_of (fileWatchers st) r' = Some h'" by (simp add: watcher_add_sel)
  with inv show "requester (sessions (watcher_add h t st) ! h') = r'"
    by (simp add: watcher_add_nth registry_inv_lookup_bound registry_inv_owner)
next
  fix h' assume lt: "h' < length (sessions (watcher_add h t st))"
    and op: "\<not> closed (sessions (watcher_add h t st) ! h')"
    and ni: "requester (sessions (watcher_add h t st) ! h') \<notin> set object_prototype_names"
  from lt have lt': "h' < length (sessions st)" by (simp add: watcher_add_sel)
  show "map_of (fileWatchers (watcher_add h t st))
          (requester (sessions (watcher_add h t st) ! h')) = Some h'"
  proof (cases "h' = h")
    case True
    with inv reg lt' show ?thesis
      by (simp add: watcher_add_sel watcher_add_nth registry_inv_owner)
  next
    case False
    with op ni lt' have "\<not> closed (sessions st ! h')"
      "requester (sessions st ! h') \<notin> set object_prototype_names"
      by (simp_all add: watcher_add_nth)
    with inv lt' show ?thesis
      by (simp add: watcher_add_sel watcher_add_nth registry_inv_open)
  qed
next
  fix h' assume "h' \<in> set (map snd (fileWatchers (watcher_add h t st)))"
  with inv show "h' < length (sessions (watcher_add h t st))"
    by (simp add: watcher_add_sel registry_inv_bound)
qed

lemma add_final:
  "final (addWatching P r t st)
     = (case map_of (fileWatchers st) r of
          None \<Rightarrow> log ''info'' [Str ''addWatching'', Str r, target_val (resolveTarget P t)] st
        | Some h \<Rightarrow>
            watcher_add h (resolveTarget P t)
              (log ''info'' [Str ''addWatching'', Str r, target_val (resolveTarget P t)] st))"
  by (simp add: addWatching_def Let_def log_sel lookup_def split: option.splits)

lemma registry_inv_add:
  assumes "registry_inv st"
  shows "registry_inv (final (addWatching P r t st))"
proof (cases "map_of (fileWatchers st) r")
  case None
  with assms show ?thesis by (simp add: add_final registry_inv_log)
next
  case (Some h)
  let ?st1 = "log ''info'' [Str ''addWatching'', Str r, target_val (resolveTarget P t)] st"
  from assms have "registry_inv ?st1" by (simp add: registry_inv_log)
  moreover from Some have "map_of (fileWatchers ?st1) r = Some h" by (simp add: log_sel)
  ultimately have "registry_inv (watcher_add h (resolveTarget P t) ?st1)"
    by (rule registry_inv_watcher_add)
  with Some show ?thesis by (simp add: add_final)
qed

lemma startWatching_throws:
  assumes "map_of (fileWatchers st) r = None" and "r \<in> set object_prototype_names"
  shows "startWatching P ipc r t st
           = Throws (TypeError ''fileWatchers[requesterId].close is not a function'')
               (snd (startWatching_created P ipc r t st))"
proof -
  obtain w st2 where c: "startWatching_created P ipc r t st = (w, st2)"
    by (cases "startWatching_created P ipc r t st")
  note sel = created_sel [OF c]
  from assms sel have "map_of (fileWatchers st2) r = None" by simp
  with assms(2) c show ?thesis
    by (simp add: startWatching_def lookup_unregistered stop_unregistered inherited_nonempty)
qed

lemma startWatching_shape:
  assumes "map_of (fileWatchers st) r \<noteq> None \<or> r \<notin> set object_prototype_names"
  shows "\<exists>hs reg'. startWatching P ipc r t st
       = Returns ((fold watcher_close hs (snd (startWatching_created P ipc r t st)))
                \<lparr>fileWatchers := reg'\<rparr>)
     \<and> map_of reg' = (map_of (fileWatchers st))(r \<mapsto> length (sessions st))
     \<and> set (map snd reg') \<subseteq> insert (length (sessions st)) (set (map snd (fileWatchers st)))
     \<and> set hs \<subseteq> set (map snd (fileWatchers st))
     \<and> (\<forall>h. map_of (fileWatchers st) r = Some h \<longrightarrow> h \<in> set hs)"
proof -
  have upd: "snd ` set (AList.update r v al) \<subseteq> insert v (snd ` set al)" for v al
    using set_update_subset [of r v al] by auto
  have del: "snd ` set (AList.delete r al) \<subseteq> snd ` set al" for al
    using set_delete_subset [of r al] by auto
  obtain w st2 where c: "startWatching_created P ipc r t st = (w, st2)"
    by (cases "startWatching_created P ipc r t st")
  note sel = created_sel [OF c]
  show ?thesis
  proof (cases "map_of (fileWatchers st) r")
    case None
    with assms have "r \<notin> set object_prototype_names" by simp
    with c sel None have "startWatching P ipc r t st
        = Returns ((fold watcher_close [] st2)\<lparr>fileWatchers := AList.update r w (fileWatchers st)\<rparr>)"
      by (simp add: startWatching_def lookup_unregistered)
    with c sel None show ?thesis
      by (intro exI [of _ "[]::nat list"] exI [of _ "AList.update r w (fileWatchers st)"])
         (simp add: update_conv' upd)
  next
    case (Some h)
    show ?thesis
    proof (cases "r = []")
      case True
      with c sel Some have "startWatching P ipc r t st
          = Returns ((fold watcher_close (map snd (fileWatchers st)) st2)
                   \<lparr>fileWatchers := AList.update r w (fileWatchers st)\<rparr>)"
        by (simp add: startWatching_def lookup_registered stop_all truthy_def fold_close_sel)
      with c sel Some show ?thesis
        by (intro exI [of _ "map snd (fileWatchers st)"]
              exI [of _ "AList.update r w (fileWatchers st)"])
           (use upd [of w "fileWatchers st"] in
             \<open>auto simp: update_conv' dest: map_of_registered_mem\<close>)
    next
      case False
      with c sel Some have "startWatching P ipc r t st
          = Returns ((fold watcher_close [h] st2)
                   \<lparr>fileWatchers := AList.update r w (AList.delete r (fileWatchers st))\<rparr>)"
        by (simp add: startWatching_def lookup_registered stop_one watcher_close_sel)
      with c sel Some show ?thesis
        by (intro exI [of _ "[h]"]
              exI [of _ "AList.update r w (AList.delete r (fileWatchers st))"])
           (use upd [of w "AList.delete r (fileWatchers st)"] del [of "fileWatchers st"] in
             \<open>auto simp: update_conv' delete_conv' dest: map_of_registered_mem\<close>)
    qed
  qed
qed

lemma created_fold_nth_old:
  assumes "startWatching_created P ipc r t st = (w, st2)" and "i < length (sessions st)"
  shows "requester (sessions (fold watcher_close hs st2) ! i) = requester (sessions st ! i)"
    and "closed (sessions (fold watcher_close hs st2) ! i) \<longleftrightarrow> closed (sessions st ! i) \<or> i \<in> set hs"
    and "options (sessions (fold watcher_close hs st2) ! i) = options (sessions st ! i)"
  using created_sel [OF assms(1)] assms(2)
  by (simp_all add: fold_close_requester fold_close_closed fold_close_options nth_append)

lemma created_fold_nth_new:
  assumes "startWatching_created P ipc r t st = (w, st2)"
  shows "requester (sessions (fold watcher_close hs st2) ! length (sessions st)) = r"
    and "closed (sessions (fold watcher_close hs st2) ! length (sessions st))
           \<longleftrightarrow> length (sessions st) \<in> set hs"
    and "options (sessions (fold watcher_close hs st2) ! length (sessions st)) = watch_policy"
    and "length (sessions (fold watcher_close hs st2)) = Suc (length (sessions st))"
  using created_sel [OF assms(1)]
  by (simp_all add: fold_close_requester fold_close_closed fold_close_options fold_close_sel)

lemma startWatching_cases:
  assumes s: "startWatching P ipc r t st = Returns st'"
  obtains w st2 hs reg' where
    "startWatching_created P ipc r t st = (w, st2)"
    "st' = (fold watcher_close hs st2)\<lparr>fileWatchers := reg'\<rparr>"
    "map_of reg' = (map_of (fileWatchers st))(r \<mapsto> length (sessions st))"
    "set (map snd reg') \<subseteq> insert (length (sessions st)) (set (map snd (fileWatchers st)))"
    "set hs \<subseteq> set (map snd (fileWatchers st))"
    "\<And>h. map_of (fileWatchers st) r = Some h \<Longrightarrow> h \<in> set hs"
proof -
  obtain w st2 where c: "startWatching_created P ipc r t st = (w, st2)"
    by (cases "startWatching_created P ipc r t st")
  have "map_of (fileWatchers st) r \<noteq> None \<or> r \<notin> set object_prototype_names"
  proof (rule ccontr)
    assume "\<not> (map_of (fileWatchers st) r \<noteq> None \<or> r \<notin> set object_prototype_names)"
    then have "map_of (fileWatchers st) r = None" "r \<in> set object_prototype_names" by simp_all
    from startWatching_throws [OF this, of P ipc t] s show False by simp
  qed
  from startWatching_shape [OF this, of P ipc t] obtain hs reg' where
    e: "startWatching P ipc r t st
       = Returns ((fold watcher_close hs (snd (startWatching_created P ipc r t st)))
                \<lparr>fileWatchers := reg'\<rparr>)"
    and m: "map_of reg' = (map_of (fileWatchers st))(r \<mapsto> length (sessions st))"
    and b: "set (map snd reg') \<subseteq> insert (length (sessions st)) (set (map snd (fileWatchers st)))"
    and hs: "set hs \<subseteq> set (map snd (fileWatchers st))"
    and old: "\<forall>h. map_of (fileWatchers st) r = Some h \<longrightarrow> h \<in> set hs"
    by blast
  from e s c have st': "st' = (fold watcher_close hs st2)\<lparr>fileWatchers := reg'\<rparr>"
    by simp
  from old have old': "\<And>h. map_of (fileWatchers st) r = Some h \<Longrightarrow> h \<in> set hs"
    by blast
  show thesis
    by (rule that [OF c st' m b hs old'])
qed

lemma registry_inv_returns:
  assumes inv: "registry_inv st" and s: "startWatching P ipc r t st = Returns st'"
  shows "registry_inv st'"
proof -
  let ?n = "length (sessions st)"
  from s obtain w st2 hs reg' where
    c: "startWatching_created P ipc r t st = (w, st2)"
    and st': "st' = (fold watcher_close hs st2)\<lparr>fileWatchers := reg'\<rparr>"
    and reg': "map_of reg' = (map_of (fileWatchers st))(r \<mapsto> ?n)"
    and bnd: "set (map snd reg') \<subseteq> insert ?n (set (map snd (fileWatchers st)))"
    and hs: "set hs \<subseteq> set (map snd (fileWatchers st))"
    and old: "\<And>h. map_of (fileWatchers st) r = Some h \<Longrightarrow> h \<in> set hs"
    by (rule startWatching_cases) blast
  show ?thesis
  proof (rule registry_invI)
    fix r' h' assume look: "map_of (fileWatchers st') r' = Some h'"
    show "requester (sessions st' ! h') = r'"
    proof (cases "r' = r")
      case True
      with look have "h' = ?n" by (simp add: st' reg')
      with True show ?thesis
        by (simp add: st' created_fold_nth_new [OF c])
    next
      case False
      with look have m: "map_of (fileWatchers st) r' = Some h'" by (simp add: st' reg')
      with inv have "h' < ?n" "requester (sessions st ! h') = r'"
        by (simp_all add: registry_inv_lookup_bound registry_inv_owner)
      then show ?thesis
        by (simp add: st' created_fold_nth_old [OF c])
    qed
  next
    fix h' assume lt: "h' < length (sessions st')" and op: "\<not> closed (sessions st' ! h')"
      and ni: "requester (sessions st' ! h') \<notin> set object_prototype_names"
    show "map_of (fileWatchers st') (requester (sessions st' ! h')) = Some h'"
    proof (cases "h' = ?n")
      case True
      then show ?thesis
        by (simp add: st' reg' created_fold_nth_new [OF c])
    next
      case False
      with lt have lt': "h' < ?n"
        by (simp add: st' created_fold_nth_new [OF c])
      with op ni have op': "\<not> closed (sessions st ! h')" and nin: "h' \<notin> set hs"
        and ni': "requester (sessions st ! h') \<notin> set object_prototype_names"
        by (simp_all add: st' created_fold_nth_old [OF c])
      from registry_inv_open [OF inv lt' op' ni']
      have m: "map_of (fileWatchers st) (requester (sessions st ! h')) = Some h'" .
      with old nin have "requester (sessions st ! h') \<noteq> r" by auto
      with m lt' show ?thesis
        by (simp add: st' reg' created_fold_nth_old [OF c])
    qed
  next
    fix h' assume "h' \<in> set (map snd (fileWatchers st'))"
    with bnd have "h' = ?n \<or> h' \<in> set (map snd (fileWatchers st))"
      by (auto simp: st')
    then have "h' \<le> ?n"
    proof
      assume "h' = ?n"
      then show ?thesis by simp
    next
      assume "h' \<in> set (map snd (fileWatchers st))"
      from registry_inv_bound [OF inv this] show ?thesis by simp
    qed
    then show "h' < length (sessions st')"
      by (simp add: st' created_fold_nth_new [OF c])
  qed
qed

lemma registry_inv_leaked:
  assumes inv: "registry_inv st" and inh: "r \<in> set object_prototype_names"
  shows "registry_inv (snd (startWatching_created P ipc r t st))"
proof -
  let ?n = "length (sessions st)"
  obtain w st2 where c: "startWatching_created P ipc r t st = (w, st2)"
    by (cases "startWatching_created P ipc r t st")
  note old = created_fold_nth_old [OF c, where hs = "[]", simplified]
    and new = created_fold_nth_new [OF c, where hs = "[]", simplified]
  have reg: "fileWatchers st2 = fileWatchers st"
    using created_sel [OF c] by simp
  have "registry_inv st2"
  proof (rule registry_invI)
    fix r' h' assume "map_of (fileWatchers st2) r' = Some h'"
    with reg inv have "h' < ?n" "requester (sessions st ! h') = r'"
      by (simp_all add: registry_inv_lookup_bound registry_inv_owner)
    then show "requester (sessions st2 ! h') = r'"
      by (simp add: old)
  next
    fix h' assume lt: "h' < length (sessions st2)" and op: "\<not> closed (sessions st2 ! h')"
      and ni: "requester (sessions st2 ! h') \<notin> set object_prototype_names"
    from ni inh new(1) have "h' \<noteq> ?n" by auto
    with lt new(4) have lt': "h' < ?n" by simp
    with op ni have "\<not> closed (sessions st ! h')"
      "requester (sessions st ! h') \<notin> set object_prototype_names"
      by (simp_all add: old)
    with inv lt' show "map_of (fileWatchers st2) (requester (sessions st2 ! h')) = Some h'"
      by (simp add: reg old registry_inv_open)
  next
    fix h' assume "h' \<in> set (map snd (fileWatchers st2))"
    with reg inv have "h' < ?n" by (simp add: registry_inv_bound)
    with new(4) show "h' < length (sessions st2)" by simp
  qed
  with c show ?thesis by simp
qed

lemma registry_inv_start:
  assumes inv: "registry_inv st"
  shows "registry_inv (final (startWatching P ipc r t st))"
proof (cases "map_of (fileWatchers st) r = None \<and> r \<in> set object_prototype_names")
  case True
  then have "final (startWatching P ipc r t st) = snd (startWatching_created P ipc r t st)"
    by (simp add: startWatching_throws)
  with inv True show ?thesis
    by (simp add: registry_inv_leaked)
next
  case False
  then have "map_of (fileWatchers st) r \<noteq> None \<or> r \<notin> set object_prototype_names" by auto
  from startWatching_shape [OF this, of P ipc t]
  obtain st' where s: "startWatching P ipc r t st = Returns st'" by blast
  from registry_inv_returns [OF inv s] s show ?thesis by simp
qed

lemma reachable_registry_inv: "reachable st \<Longrightarrow> registry_inv st"
proof (induction rule: reachable.induct)
  case reach_init
  show ?case by (rule registry_inv_init)
next
  case (reach_start st P ipcEmitter requesterId fileTarget)
  then show ?case by (blast intro: registry_inv_start)
next
  case (reach_stop st requesterId st')
  then show ?case by (blast intro: registry_inv_stop)
next
  case (reach_add st P requesterId fileTarget)
  then show ?case by (blast intro: registry_inv_add)
qed

lemma at_most_one_elem:
  "distinct xs \<Longrightarrow> (\<And>x. x \<in> set xs \<Longrightarrow> x = a) \<Longrightarrow> length xs \<le> Suc 0"
proof (cases xs)
  case Nil
  then show ?thesis by simp
next
  case (Cons x ys)
  assume d: "distinct xs" and e: "\<And>x. x \<in> set xs \<Longrightarrow> x = a"
  show ?thesis
  proof (cases ys)
    case Nil
    with Cons show ?thesis by simp
  next
    case (Cons y zs)
    with \<open>xs = x # ys\<close> e [of x] e [of y] d show ?thesis by simp
  qed
qed

lemma active_mem:
  "h \<in> set (active st r) \<longleftrightarrow>
     h < length (sessions st) \<and> requester (sessions st ! h) = r \<and> \<not> closed (sessions st ! h)"
  by (auto simp: active_def)

lemma registry_inv_at_most_one:
  assumes inv: "registry_inv st" and ni: "r \<notin> set object_prototype_names"
  shows "length (active st r) \<le> Suc 0"
proof (cases "map_of (fileWatchers st) r")
  case None
  have "active st r = []"
  proof (rule ccontr)
    assume "active st r \<noteq> []"
    then obtain h where "h \<in> set (active st r)" by (cases "active st r") auto
    then have "h < length (sessions st)" "requester (sessions st ! h) = r"
      "\<not> closed (sessions st ! h)"
      by (simp_all add: active_mem)
    with registry_inv_open [OF inv, of h] None ni show False by simp
  qed
  then show ?thesis by simp
next
  case (Some a)
  have "x = a" if "x \<in> set (active st r)" for x
  proof -
    from that have "x < length (sessions st)" "requester (sessions st ! x) = r"
      "\<not> closed (sessions st ! x)"
      by (simp_all add: active_mem)
    with registry_inv_open [OF inv, of x] Some ni show ?thesis by simp
  qed
  moreover have "distinct (active st r)"
    by (simp add: active_def)
  ultimately show ?thesis
    by (rule at_most_one_elem [rotated])
qed

lemma active_after_start:
  assumes inv: "registry_inv st" and s: "startWatching P ipc r t st = Returns st'"
    and ni: "r \<notin> set object_prototype_names"
  shows "active st' r = [length (sessions st)]"
proof -
  let ?n = "length (sessions st)"
  from s obtain w st2 hs reg' where
    c: "startWatching_created P ipc r t st = (w, st2)"
    and st': "st' = (fold watcher_close hs st2)\<lparr>fileWatchers := reg'\<rparr>"
    and reg': "map_of reg' = (map_of (fileWatchers st))(r \<mapsto> ?n)"
    and hs: "set hs \<subseteq> set (map snd (fileWatchers st))"
    by (rule startWatching_cases) blast
  have inv': "registry_inv st'" using inv s by (rule registry_inv_returns)
  have "?n \<notin> set hs"
  proof
    assume "?n \<in> set hs"
    with hs have "?n \<in> set (map snd (fileWatchers st))" by blast
    from registry_inv_bound [OF inv this] show False by simp
  qed
  then have new: "requester (sessions st' ! ?n) = r" "\<not> closed (sessions st' ! ?n)"
    by (simp_all add: st' created_fold_nth_new [OF c])
  have len: "length (sessions st') = Suc ?n"
    by (simp add: st' created_fold_nth_new [OF c])
  have none: "\<not> (requester (sessions st' ! h) = r \<and> \<not> closed (sessions st' ! h))"
    if "h < ?n" for h
  proof
    assume h: "requester (sessions st' ! h) = r \<and> \<not> closed (sessions st' ! h)"
    from that len have "h < length (sessions st')" by simp
    with registry_inv_open [OF inv', of h] h ni have "map_of (fileWatchers st') r = Some h"
      by auto
    with that show False by (simp add: st' reg')
  qed
  have "filter (\<lambda>h. requester (sessions st' ! h) = r \<and> \<not> closed (sessions st' ! h)) [0..<?n] = []"
    using none by (simp add: filter_empty_conv)
  with new show ?thesis
    by (simp add: active_def len)
qed

section \<open>Replacing and stopping sessions\<close>

lemma resolve_home_rest:
  "resolveHomeDirectory posix_host (CHR ''~'' # rest) = ''/home/u'' @ rest"
  using resolveHomeDirectory_tilde [of posix_host rest] by (simp add: posix_host_simps)

lemma file_viewer_plain: "''file-viewer'' \<notin> set object_prototype_names"
  by (simp add: object_prototype_names_def)

lemma one_session_start:
  "startWatching posix_host ''ipc'' ''file-viewer'' (Path ''~/docs/*'') init = Returns one_session"
  by (simp add: startWatching_def startWatching_created_def chokidar_watch_def log_def init_def
        one_session_def resolve_home_rest lookup_def file_viewer_plain)

lemma reachable_one_session: "reachable one_session"
  using reach_start [OF reach_init, of posix_host "''ipc''" "''file-viewer''" "Path ''~/docs/*''"]
  by (simp add: one_session_start)

lemma fold_close_effects_exact:
  "effects (fold watcher_close hs st)
     = effects st @ map Close (filter (\<lambda>h. h < length (sessions st)) hs)"
  by (induction hs arbitrary: st) (simp_all add: watcher_close_sel, simp add: watcher_close_def)

text \<open>
  Claim C1, as the code has it. In any state the module can be in, an identity that is
  not a name inherited from \<^verbatim>\<open>Object.prototype\<close> has at most one active session. For
  such an identity, from any such state, \<open>startWatching\<close> returns. It
  first creates the new watcher, then closes the watcher registered for the identity, if
  there is one (which also removes its listeners), and registers the new one. Afterwards
  the identity has exactly one active session, the new one, which is the registered one,
  and no such identity has more than one active session.
\<close>

theorem startWatching_replaces:
  assumes "reachable st" and "r \<notin> set object_prototype_names"
  shows "(\<forall>r'. r' \<notin> set object_prototype_names \<longrightarrow> length (active st r') \<le> 1)
     \<and> (\<exists>st' closes. startWatching P ipc r t st = Returns st'
     \<and> map_of (fileWatchers st') r = Some (length (sessions st))
     \<and> active st' r = [length (sessions st)]
     \<and> (\<forall>r'. r' \<notin> set object_prototype_names \<longrightarrow> length (active st' r') \<le> 1)
     \<and> (\<forall>h. map_of (fileWatchers st) r = Some h \<longrightarrow>
            closed (sessions st' ! h) \<and> listeners (sessions st' ! h) = [] \<and> h \<in> set closes)
     \<and> effects st' = effects st
          @ [Log ''info'' [Str ''startWatching'', Str r, target_val (resolveTarget P t)],
             Watch (length (sessions st))]
          @ map Close closes)"
proof -
  let ?n = "length (sessions st)"
  from assms(1) have inv: "registry_inv st" by (rule reachable_registry_inv)
  from assms(2) have "map_of (fileWatchers st) r \<noteq> None \<or> r \<notin> set object_prototype_names"
    by simp
  from startWatching_shape [OF this, of P ipc t]
  obtain st' where s: "startWatching P ipc r t st = Returns st'"
    by blast
  from s obtain w st2 hs reg' where
    c: "startWatching_created P ipc r t st = (w, st2)"
    and st': "st' = (fold watcher_close hs st2)\<lparr>fileWatchers := reg'\<rparr>"
    and reg': "map_of reg' = (map_of (fileWatchers st))(r \<mapsto> ?n)"
    and old: "\<And>h. map_of (fileWatchers st) r = Some h \<Longrightarrow> h \<in> set hs"
    by (rule startWatching_cases) blast
  note sel = created_sel [OF c]
  define closes where "closes = filter (\<lambda>h. h < length (sessions st2)) hs"
  have "reachable (final (startWatching P ipc r t st))" using assms(1) by (rule reach_start)
  with s have "reachable st'" by simp
  then have inv': "registry_inv st'" by (rule reachable_registry_inv)
  have 1: "map_of (fileWatchers st') r = Some ?n" by (simp add: st' reg')
  have 2: "active st' r = [?n]" using inv s assms(2) by (rule active_after_start)
  have 3: "\<forall>r'. r' \<notin> set object_prototype_names \<longrightarrow> length (active st' r') \<le> 1"
    using registry_inv_at_most_one [OF inv'] by simp
  have 4: "closed (sessions st' ! h) \<and> listeners (sessions st' ! h) = [] \<and> h \<in> set closes"
    if "map_of (fileWatchers st) r = Some h" for h
  proof -
    from that inv have lt: "h < ?n" by (rule registry_inv_lookup_bound [rotated])
    from old [OF that] have mem: "h \<in> set hs" .
    from lt sel have lt2: "h < length (sessions st2)" by simp
    with mem show ?thesis
      by (simp add: st' closes_def fold_close_closed fold_close_listeners)
  qed
  have 5: "effects st' = effects st
          @ [Log ''info'' [Str ''startWatching'', Str r, target_val (resolveTarget P t)], Watch ?n]
          @ map Close closes"
    using sel by (simp add: st' closes_def fold_close_effects_exact)
  have 0: "\<forall>r'. r' \<notin> set object_prototype_names \<longrightarrow> length (active st r') \<le> 1"
    using registry_inv_at_most_one [OF inv] by simp
  from s 1 2 3 4 5 have "\<exists>st' closes. startWatching P ipc r t st = Returns st'
     \<and> map_of (fileWatchers st') r = Some (length (sessions st))
     \<and> active st' r = [length (sessions st)]
     \<and> (\<forall>r'. r' \<notin> set object_prototype_names \<longrightarrow> length (active st' r') \<le> 1)
     \<and> (\<forall>h. map_of (fileWatchers st) r = Some h \<longrightarrow>
            closed (sessions st' ! h) \<and> listeners (sessions st' ! h) = [] \<and> h \<in> set closes)
     \<and> effects st' = effects st
          @ [Log ''info'' [Str ''startWatching'', Str r, target_val (resolveTarget P t)],
             Watch (length (sessions st))]
          @ map Close closes"
    by blast
  with 0 show ?thesis by (rule conjI)
qed

text \<open>
  The theorem for a second \<^verbatim>\<open>startWatching\<close> of the identity \<^verbatim>\<open>file-viewer\<close>.
\<close>

theorem startWatching_replaces_witness:
  "reachable one_session
   \<and> (\<exists>st'. startWatching posix_host ''ipc'' ''file-viewer'' (Path ''~/pics/*'') one_session
              = Returns st'
         \<and> map_of (fileWatchers st') ''file-viewer'' = Some 1
         \<and> active st' ''file-viewer'' = [1]
         \<and> closed (sessions st' ! 0))"
proof -
  have len: "length (sessions one_session) = 1"
    and old: "map_of (fileWatchers one_session) ''file-viewer'' = Some 0"
    by (simp_all add: one_session_def)
  from startWatching_replaces [OF reachable_one_session file_viewer_plain,
      of posix_host "''ipc''" "Path ''~/pics/*''"] old
  show ?thesis
    by (auto simp: len reachable_one_session)
qed

text \<open>
  Claim C1 as stated fails on the order: in the second \<^verbatim>\<open>startWatching\<close> of an identity the
  replacement is created (\<open>Watch 1\<close>) before the old session is closed (\<open>Close 0\<close>), and
  in between the identity has two active sessions.
\<close>

theorem replacement_created_first_counterexample:
  "active (snd (startWatching_created posix_host ''ipc'' ''file-viewer'' (Path ''~/pics/*'')
                  one_session)) ''file-viewer'' = [0, 1]
   \<and> effects (final
        (startWatching posix_host ''ipc'' ''file-viewer'' (Path ''~/pics/*'') one_session))
     = [Log ''info'' [Str ''startWatching'', Str ''file-viewer'', Str ''/home/u/docs/*''],
        Watch 0,
        Log ''info'' [Str ''startWatching'', Str ''file-viewer'', Str ''/home/u/pics/*''],
        Watch 1, Close 0]"
  by (simp add: startWatching_def startWatching_created_def chokidar_watch_def log_def
        one_session_def resolve_home_rest stopWatching_def truthy_def watcher_close_def
        lookup_def active_def upt_rec)

text \<open>
  Why the identity must not be an inherited name: \<^verbatim>\<open>startWatching(ipc, 'constructor', t)\<close>
  creates its watcher, reads the inherited \<^verbatim>\<open>Object\<close> as if it were a registration, and
  throws in \<open>stopWatching\<close>; the new watcher stays open and unregistered.
\<close>

lemma inherited_identity_leaks:
  "startWatching posix_host ''ipc'' ''constructor'' (Path ''/tmp/*'') init
     = Throws (TypeError ''fileWatchers[requesterId].close is not a function'')
         \<lparr>fileWatchers = [],
          sessions = [\<lparr>requester = ''constructor'', emitter = ''ipc'', watched = [Path ''/tmp/*''],
                       options = watch_policy,
                       listeners = [''add'', ''change'', ''unlink'', ''addDir'', ''unlinkDir'',
                                    ''error'', ''ready'', ''all''],
                       closed = False\<rparr>],
          effects = [Log ''info'' [Str ''startWatching'', Str ''constructor'', Str ''/tmp/*''],
                     Watch 0]\<rparr>"
  by (simp add: startWatching_def startWatching_created_def chokidar_watch_def log_def init_def
        stopWatching_def truthy_def lookup_def object_prototype_names_def
        resolveHomeDirectory_def startsWith_def)

text \<open>
  What \<open>stopWatching\<close> does to the registry in general: without an identity every
  registered watcher is closed and \<^verbatim>\<open>fileWatchers\<close> is left as it was; with a registered
  identity that watcher alone is closed and that registration alone is deleted.
\<close>

lemma stop_all_registry_unchanged:
  assumes "\<not> truthy requesterId"
  shows "\<exists>st'. stopWatching requesterId st = Inr st' \<and> fileWatchers st' = fileWatchers st
           \<and> (\<forall>h \<in> set (map snd (fileWatchers st)). h < length (sessions st)
                  \<longrightarrow> closed (sessions st' ! h))"
  using assms by (simp add: stop_all fold_close_sel fold_close_closed)

lemma stop_one_removes_only:
  assumes "r \<noteq> []" and "map_of (fileWatchers st) r = Some h" and "h < length (sessions st)"
  shows "\<exists>st'. stopWatching (Some r) st = Inr st'
           \<and> map_of (fileWatchers st') = (map_of (fileWatchers st))(r := None)
           \<and> closed (sessions st' ! h)
           \<and> (\<forall>i < length (sessions st). i \<noteq> h \<longrightarrow> sessions st' ! i = sessions st ! i)"
  using assms by (simp add: stop_one delete_conv' watcher_close_nth)

text \<open>
  Claim C5 at the state with one registration: \<^verbatim>\<open>stopWatching()\<close> closes the watcher and
  leaves its registration in \<^verbatim>\<open>fileWatchers\<close>, whereas \<^verbatim>\<open>stopWatching('file-viewer')\<close> closes
  it and deletes the registration.
\<close>

theorem stop_all_keeps_registrations:
  "map_sum id (\<lambda>s. (fileWatchers s, map closed (sessions s))) (stopWatching None one_session)
     = Inr ([(''file-viewer'', 0)], [True])
   \<and> map_sum id (\<lambda>s. (fileWatchers s, map closed (sessions s)))
        (stopWatching (Some ''file-viewer'') one_session)
     = Inr ([], [True])"
  by (simp add: stopWatching_def truthy_def lookup_def watcher_close_def one_session_def)

text \<open>
  Claim C10, as the code has it. For a non-empty identity for which the registry holds
  no session, \<open>stopWatching\<close> throws a \<^verbatim>\<open>TypeError\<close>; with the empty identity it does what it
  does without an identity. For an unregistered identity that is not a name inherited
  from \<^verbatim>\<open>Object.prototype\<close>, \<open>addWatching\<close> returns and leaves the registry and the watchers
  as they are (it logs its call at level \<^verbatim>\<open>info\<close>).
\<close>

theorem stop_throws_add_is_noop:
  assumes "map_of (fileWatchers st) r = None"
  shows "(r \<noteq> [] \<longrightarrow> (\<exists>msg. stopWatching (Some r) st = Inl (TypeError msg)))
       \<and> stopWatching (Some []) st = stopWatching None st
       \<and> (r \<notin> set object_prototype_names \<longrightarrow>
            addWatching P r t st
              = Returns (st\<lparr>effects := effects st
                   @ [Log ''info'' [Str ''addWatching'', Str r, target_val (resolveTarget P t)]]\<rparr>))"
proof (intro conjI impI)
  assume "r \<noteq> []"
  with assms show "\<exists>msg. stopWatching (Some r) st = Inl (TypeError msg)"
    by (simp add: stop_unregistered)
next
  show "stopWatching (Some []) st = stopWatching None st"
    by (simp add: stopWatching_def truthy_def)
next
  assume "r \<notin> set object_prototype_names"
  with assms show "addWatching P r t st
      = Returns (st\<lparr>effects := effects st
           @ [Log ''info'' [Str ''addWatching'', Str r, target_val (resolveTarget P t)]]\<rparr>)"
    by (simp add: addWatching_def Let_def log_def lookup_unregistered)
qed

text \<open>The theorem in the initial state, where nothing is registered.\<close>

theorem stop_throws_add_is_noop_witness:
  "(\<exists>msg. stopWatching (Some ''file-viewer'') init = Inl (TypeError msg))
   \<and> stopWatching (Some []) init = stopWatching None init
   \<and> addWatching posix_host ''file-viewer'' (Path ''~/docs/*'') init
     = Returns \<lparr>fileWatchers = [], sessions = [],
               effects = [Log ''info'' [Str ''addWatching'', Str ''file-viewer'',
                                       Str ''/home/u/docs/*'']]\<rparr>"
  using stop_throws_add_is_noop [of init "''file-viewer''" posix_host "Path ''~/docs/*''"]
  by (simp add: init_def resolve_home_rest file_viewer_plain)

text \<open>
  Claim C10 as stated fails twice. The empty string is an identity with no registration,
  and \<^verbatim>\<open>stopWatching('')\<close> returns: the identity is falsy, so the call stops every watcher.
  And \<^verbatim>\<open>constructor\<close> is an unregistered identity for which \<open>addWatching\<close> throws: the
  guard reads the inherited \<^verbatim>\<open>Object\<close>, which has no \<^verbatim>\<open>add\<close>.
\<close>

theorem stop_add_counterexample:
  "map_of (fileWatchers init) [] = None
   \<and> stopWatching (Some []) init = Inr init
   \<and> map_of (fileWatchers init) ''constructor'' = None
   \<and> addWatching posix_host ''constructor'' (Path ''/tmp/x'') init
     = Throws (TypeError ''fileWatchers[requesterId].add is not a function'')
         \<lparr>fileWatchers = [], sessions = [],
          effects = [Log ''info'' [Str ''addWatching'', Str ''constructor'', Str ''/tmp/x'']]\<rparr>"
  by (simp add: init_def stopWatching_def truthy_def addWatching_def log_def lookup_def
        object_prototype_names_def resolveHomeDirectory_def startsWith_def)

section \<open>The watch policy\<close>

lemma stopWatching_cases:
  assumes "stopWatching requesterId st = Inr st'"
  obtains hs reg' where "st' = (fold watcher_close hs st)\<lparr>fileWatchers := reg'\<rparr>"
proof (cases "truthy requesterId")
  case False
  with assms have e: "st' = fold watcher_close (map snd (fileWatchers st)) st"
    by (simp add: stop_all)
  have "st' = st'\<lparr>fileWatchers := fileWatchers st'\<rparr>" by simp
  with e have "st' = (fold watcher_close (map snd (fileWatchers st)) st)
                       \<lparr>fileWatchers := fileWatchers st'\<rparr>"
    by simp
  then show thesis by (rule that)
next
  case True
  with assms obtain r h where r: "requesterId = Some r" "r \<noteq> []"
    and h: "map_of (fileWatchers st) r = Some h"
    by (rule stop_returns_registered)
  with assms have "st' = (fold watcher_close [h] st)
                            \<lparr>fileWatchers := AList.delete r (fileWatchers st)\<rparr>"
    by (simp add: stop_one)
  then show thesis by (rule that)
qed

lemma policy_start:
  assumes p: "\<And>i. i < length (sessions st) \<Longrightarrow> options (sessions st ! i) = watch_policy"
    and i: "i < length (sessions (final (startWatching P ipc r t st)))"
  shows "options (sessions (final (startWatching P ipc r t st)) ! i) = watch_policy"
proof -
  obtain w st2 where c: "startWatching_created P ipc r t st = (w, st2)"
    by (cases "startWatching_created P ipc r t st")
  have "\<exists>hs reg'. final (startWatching P ipc r t st)
          = (fold watcher_close hs st2)\<lparr>fileWatchers := reg'\<rparr>"
  proof (cases "map_of (fileWatchers st) r = None \<and> r \<in> set object_prototype_names")
    case True
    then have "final (startWatching P ipc r t st) = st2"
      using c by (simp add: startWatching_throws)
    then have "final (startWatching P ipc r t st)
                 = (fold watcher_close [] st2)\<lparr>fileWatchers := fileWatchers st2\<rparr>"
      by simp
    then show ?thesis by blast
  next
    case False
    then have "map_of (fileWatchers st) r \<noteq> None \<or> r \<notin> set object_prototype_names" by auto
    from startWatching_shape [OF this, of P ipc t] obtain hs reg' where
      "startWatching P ipc r t st
         = Returns ((fold watcher_close hs (snd (startWatching_created P ipc r t st)))
                      \<lparr>fileWatchers := reg'\<rparr>)"
      by blast
    with c have "final (startWatching P ipc r t st)
                   = (fold watcher_close hs st2)\<lparr>fileWatchers := reg'\<rparr>"
      by simp
    then show ?thesis by blast
  qed
  then obtain hs reg' where
    st': "final (startWatching P ipc r t st) = (fold watcher_close hs st2)\<lparr>fileWatchers := reg'\<rparr>"
    by blast
  show ?thesis
  proof (cases "i = length (sessions st)")
    case True
    then show ?thesis by (simp add: st' created_fold_nth_new [OF c])
  next
    case False
    with i have "i < length (sessions st)"
      by (simp add: st' created_fold_nth_new [OF c])
    with p show ?thesis by (simp add: st' created_fold_nth_old [OF c])
  qed
qed

lemma policy_stop:
  assumes p: "\<And>i. i < length (sessions st) \<Longrightarrow> options (sessions st ! i) = watch_policy"
    and s: "stopWatching requesterId st = Inr st'"
    and i: "i < length (sessions st')"
  shows "options (sessions st' ! i) = watch_policy"
proof -
  from s obtain hs reg' where st': "st' = (fold watcher_close hs st)\<lparr>fileWatchers := reg'\<rparr>"
    by (rule stopWatching_cases)
  with i p show ?thesis by (simp add: fold_close_sel fold_close_options)
qed

lemma policy_add:
  assumes p: "\<And>i. i < length (sessions st) \<Longrightarrow> options (sessions st ! i) = watch_policy"
    and i: "i < length (sessions (final (addWatching P r t st)))"
  shows "options (sessions (final (addWatching P r t st)) ! i) = watch_policy"
  using i p
  by (cases "map_of (fileWatchers st) r")
     (simp_all add: add_final log_sel watcher_add_sel watcher_add_nth)

lemma reachable_policy:
  "reachable st \<Longrightarrow> i < length (sessions st) \<Longrightarrow> options (sessions st ! i) = watch_policy"
proof (induction arbitrary: i rule: reachable.induct)
  case reach_init
  then show ?case by (simp add: init_def)
next
  case (reach_start st P ipcEmitter requesterId fileTarget)
  from reach_start.IH reach_start.prems show ?case
    by (rule policy_start)
next
  case (reach_stop st requesterId st')
  from reach_stop.IH reach_stop.hyps(2) reach_stop.prems show ?case
    by (rule policy_stop)
next
  case (reach_add st P requesterId fileTarget)
  from reach_add.IH reach_add.prems show ?case
    by (rule policy_add)
qed

lemma regex_test_append: "match_here r s \<Longrightarrow> regex_test r (pre @ s)"
proof (induction pre)
  case Nil
  then show ?case by (cases s) simp_all
next
  case (Cons c pre)
  then show ?case by simp
qed

lemma policy_ignores_dotfiles: "is_ignored watch_policy (pre @ c # ''.'' @ post)"
  if "c = CHR ''/'' \<or> c = CHR 0x5C"
  using that regex_test_append [of "[OneOf [CHR ''/'', CHR 0x5C], Lit CHR ''.'']" "c # ''.'' @ post" pre]
  by (auto simp: is_ignored_def watch_policy_def)

lemma policy_ignores_log: "is_ignored watch_policy (pre @ ''rodeo.log'' @ post)"
  using regex_test_append [of "[Lit CHR ''r'', Lit CHR ''o'', Lit CHR ''d'', Lit CHR ''e'',
      Lit CHR ''o'', AnyChar, Lit CHR ''l'', Lit CHR ''o'', Lit CHR ''g'']" "''rodeo.log'' @ post" pre]
  by (simp add: is_ignored_def watch_policy_def)

text \<open>
  Claim C8. Watchers are only created by \<open>startWatching\<close>, and every watcher of every
  state the module can be in has the fixed options: depth 1, symbolic links not followed,
  \<^verbatim>\<open>awaitWriteFinish\<close> and \<^verbatim>\<open>ignoreInitial\<close> set, and the two \<^verbatim>\<open>ignored\<close> patterns, which match
  every path in which a slash or a backslash is followed by a dot (a component that starts
  with a dot) and every path that contains \<^verbatim>\<open>rodeo.log\<close>.
\<close>

theorem sessions_follow_policy:
  assumes "reachable st" and "w \<in> set (sessions st)"
  shows "awaitWriteFinish (options w) \<and> persistent (options w) \<and> \<not> followSymlinks (options w)
       \<and> \<not> usePolling (options w) \<and> depth (options w) = 1
       \<and> \<not> ignorePermissionErrors (options w) \<and> ignoreInitial (options w)
       \<and> ignored (options w)
           = [[OneOf [CHR ''/'', CHR 0x5C], Lit CHR ''.''],
              [Lit CHR ''r'', Lit CHR ''o'', Lit CHR ''d'', Lit CHR ''e'', Lit CHR ''o'', AnyChar,
               Lit CHR ''l'', Lit CHR ''o'', Lit CHR ''g'']]
       \<and> is_ignored (options w) (pre @ ''/.'' @ post)
       \<and> is_ignored (options w) (pre @ CHR 0x5C # ''.'' @ post)
       \<and> is_ignored (options w) (pre @ ''rodeo.log'' @ post)"
proof -
  from assms(2) obtain i where "i < length (sessions st)" "w = sessions st ! i"
    by (auto simp: in_set_conv_nth)
  with assms(1) have p: "options w = watch_policy"
    by (simp add: reachable_policy)
  have "is_ignored watch_policy (pre @ ''/.'' @ post)"
    and "is_ignored watch_policy (pre @ CHR 0x5C # ''.'' @ post)"
    using policy_ignores_dotfiles [of "CHR ''/''" pre post]
      policy_ignores_dotfiles [of "CHR 0x5C" pre post] by simp_all
  with p policy_ignores_log [of pre post] show ?thesis
    by (simp add: watch_policy_def)
qed

text \<open>
  The theorem for the watcher of the state after one \<^verbatim>\<open>startWatching\<close>.
\<close>

theorem sessions_follow_policy_witness:
  "reachable one_session \<and> sessions one_session \<noteq> []
   \<and> depth (options (hd (sessions one_session))) = 1
   \<and> \<not> followSymlinks (options (hd (sessions one_session)))
   \<and> awaitWriteFinish (options (hd (sessions one_session)))
   \<and> ignoreInitial (options (hd (sessions one_session)))
   \<and> is_ignored (options (hd (sessions one_session))) ''/home/u/docs/.git''
   \<and> is_ignored (options (hd (sessions one_session))) ''/home/u/docs/rodeo.log''"
proof -
  have m: "hd (sessions one_session) \<in> set (sessions one_session)"
    and n: "sessions one_session \<noteq> []"
    by (simp_all add: one_session_def)
  from sessions_follow_policy [OF reachable_one_session m, of "''/home/u/docs''" "''git''"]
    sessions_follow_policy [OF reachable_one_session m, of "''/home/u/docs/''" "[]"]
  show ?thesis
    using n reachable_one_session by simp
qed

end
